theory Spec2Isabelle
  imports Complex_Main "HOL-Library.Monad_Syntax"
begin

section \<open>The dataset pool of gcore/gdalproxypool.cpp\<close>

text \<open>
  The pool of gdalproxypool.cpp is a singleton holding an intrusive doubly linked list of
  cache entries. The embedding keeps the pointers: entries live in a store from addresses
  to entry records, and the links \<open>prev\<close>/\<open>next\<close> are optional addresses (\<open>None\<close> is
  \<open>NULL\<close>). Every function that the C++ code runs on the store is a function from the
  global state to an optional result: \<open>None\<close> stands for "no defined result", that is a
  dereference of \<open>NULL\<close> or of a freed address, a \<open>CPLAssert\<close> that fails in a debug
  build, or a scan of the list that never ends.
\<close>

subsection \<open>Data model\<close>

type_synonym addr = nat

text \<open>An opened \<open>GDALDataset*\<close> is an opaque handle.\<close>

type_synonym dataset = nat

datatype GDALAccess = GA_ReadOnly | GA_Update

datatype open_flag = GDAL_OF_READONLY | GDAL_OF_UPDATE | GDAL_OF_RASTER | GDAL_OF_VERBOSE_ERROR

text \<open>\<open>struct _GDALProxyPoolCacheEntry\<close>; the field \<open>next\<close> is called \<open>nxt\<close>.\<close>

record GDALProxyPoolCacheEntry =
  responsiblePID :: int
  pszFileName :: string
  poDS :: "dataset option"
  refCount :: int
  prev :: "addr option"
  nxt :: "addr option"

text \<open>\<open>class GDALDatasetPool\<close>; its field \<open>refCount\<close> is called \<open>poolRefCount\<close>.\<close>

record GDALDatasetPool =
  poolRefCount :: int
  maxSize :: int
  currentSize :: int
  firstEntry :: "addr option"
  lastEntry :: "addr option"
  refCountOfDisableRefCount :: int

text \<open>
  What the pool does to the outside world is recorded in a trace: every \<open>GDALOpenEx\<close> and
  \<open>GDALClose\<close> it issues, with the responsible PID of the calling thread and the pool's
  \<open>refCountOfDisableRefCount\<close> at the moment of the call, and the \<open>CPLError\<close> of a full
  pool with the size it prints.
\<close>

datatype event =
    EvOpen string "open_flag list" "string list option" int int
  | EvClose dataset int int
  | EvError int

text \<open>
  The global state: the static \<open>singleton\<close>, the store of cache entries with the next
  address \<open>CPLMalloc\<close> hands out, the responsible PID slot of the running thread, and the
  trace.
\<close>

record gstate =
  singleton :: "GDALDatasetPool option"
  heap :: "addr \<Rightarrow> GDALProxyPoolCacheEntry option"
  nextAddr :: addr
  curPID :: int
  trace :: "event list"

text \<open>
  The collaborators that are not part of the file: the driver's open and close (which may
  re-enter the pool, hence take and return the global state), the configuration options,
  the accessors of an opened dataset, and whether \<open>CPLAssert\<close> is compiled in (\<open>DEBUG\<close>).
\<close>

record env =
  openEx :: "string \<Rightarrow> open_flag list \<Rightarrow> string list option \<Rightarrow> gstate \<Rightarrow> dataset option \<times> gstate"
  closeDS :: "dataset \<Rightarrow> gstate \<Rightarrow> gstate"
  configOptions :: "string \<Rightarrow> string option"
  srcProjectionRef :: "dataset \<Rightarrow> string option"
  srcGeoTransform :: "dataset \<Rightarrow> real list option"
  debug :: bool

subsection \<open>Collaborators\<close>

text \<open>
  Modelled from the spec: \<open>GDALGetResponsiblePIDForCurrentThread\<close> and
  \<open>GDALSetResponsiblePIDForCurrentThread\<close> (gcore/gdaldataset.cpp, not among the sources)
  are the get/set pair of the per-thread responsible-identity slot.
\<close>

definition GDALGetResponsiblePIDForCurrentThread :: "gstate \<Rightarrow> int" where
  "GDALGetResponsiblePIDForCurrentThread s = curPID s"

definition GDALSetResponsiblePIDForCurrentThread :: "int \<Rightarrow> gstate \<Rightarrow> gstate" where
  "GDALSetResponsiblePIDForCurrentThread pid s = s\<lparr>curPID := pid\<rparr>"

text \<open>
  Modelled from the spec: \<open>CPLGetConfigOption(key, default)\<close> (port/cpl_conv.cpp, not among
  the sources) returns the configured string, or the default when the option is unset.
\<close>

definition CPLGetConfigOption :: "env \<Rightarrow> string \<Rightarrow> string \<Rightarrow> string" where
  "CPLGetConfigOption ev key dflt = (case configOptions ev key of None \<Rightarrow> dflt | Some v \<Rightarrow> v)"

text \<open>
  \<open>atoi\<close> of the C library, as the GNU C library has it: \<open>(int) strtol (nptr, NULL, 10)\<close>.
  \<open>strtol\<close> skips leading white space, reads an optional sign and then decimal digits up
  to the first other character (no digits give 0); a value outside \<open>long\<close>, which has 64
  bits here, is replaced by \<open>LONG_MIN\<close> or \<open>LONG_MAX\<close>. The conversion to \<open>int\<close> keeps the
  low 32 bits. For a numeral that fits an \<open>int\<close> the result is its value; ISO C defines
  \<open>atoi\<close> for these only.
\<close>

definition isspace :: "char \<Rightarrow> bool" where
  "isspace c = (of_char c = (32::nat) \<or> (9 \<le> (of_char c :: nat) \<and> (of_char c :: nat) \<le> 13))"

definition isdigit :: "char \<Rightarrow> bool" where
  "isdigit c = (48 \<le> (of_char c :: nat) \<and> (of_char c :: nat) \<le> 57)"

fun atoi_digits :: "int \<Rightarrow> string \<Rightarrow> int" where
  "atoi_digits acc [] = acc"
| "atoi_digits acc (c # cs) =
     (if isdigit c then atoi_digits (acc * 10 + (int (of_char c) - 48)) cs else acc)"

text \<open>The number that the characters denote, without a bound.\<close>

fun atoi_value :: "string \<Rightarrow> int" where
  "atoi_value [] = 0"
| "atoi_value (c # cs) =
     (if isspace c then atoi_value cs
      else if c = CHR ''-'' then - atoi_digits 0 cs
      else if c = CHR ''+'' then atoi_digits 0 cs
      else atoi_digits 0 (c # cs))"

definition strtol :: "string \<Rightarrow> int" where
  "strtol s = max (- (2 ^ 63)) (min (2 ^ 63 - 1) (atoi_value s))"

definition int_of_long :: "int \<Rightarrow> int" where
  "int_of_long v = (v + 2 ^ 31) mod 2 ^ 32 - 2 ^ 31"

definition atoi :: "string \<Rightarrow> int" where
  "atoi s = int_of_long (strtol s)"

text \<open>
  \<open>GDALOpenEx\<close> and \<open>GDALClose\<close> as the pool calls them: the call is recorded, then the
  driver runs.
\<close>

definition disableCount :: "gstate \<Rightarrow> int" where
  "disableCount s = (case singleton s of None \<Rightarrow> 0 | Some p \<Rightarrow> refCountOfDisableRefCount p)"

definition GDALOpenEx ::
  "env \<Rightarrow> string \<Rightarrow> open_flag list \<Rightarrow> string list option \<Rightarrow> gstate \<Rightarrow> dataset option \<times> gstate" where
  "GDALOpenEx ev fn flags opts s =
     openEx ev fn flags opts
       (s\<lparr>trace := trace s @ [EvOpen fn flags opts (curPID s) (disableCount s)]\<rparr>)"

definition GDALClose :: "env \<Rightarrow> dataset \<Rightarrow> gstate \<Rightarrow> gstate" where
  "GDALClose ev d s =
     closeDS ev d (s\<lparr>trace := trace s @ [EvClose d (curPID s) (disableCount s)]\<rparr>)"

subsection \<open>Reading and writing the store\<close>

text \<open>\<open>rd s a\<close> reads the entry at a non-null address; \<open>rdp\<close> follows a pointer.\<close>

definition rd :: "gstate \<Rightarrow> addr \<Rightarrow> GDALProxyPoolCacheEntry option" where
  "rd s a = heap s a"

definition rdp :: "gstate \<Rightarrow> addr option \<Rightarrow> GDALProxyPoolCacheEntry option" where
  "rdp s p = (case p of None \<Rightarrow> None | Some a \<Rightarrow> heap s a)"

text \<open>\<open>wr a f s\<close> is an assignment to fields of the entry at \<open>a\<close>; \<open>wrp\<close> through a pointer.\<close>

definition wr ::
  "addr \<Rightarrow> (GDALProxyPoolCacheEntry \<Rightarrow> GDALProxyPoolCacheEntry) \<Rightarrow> gstate \<Rightarrow> gstate option" where
  "wr a f s = (case heap s a of None \<Rightarrow> None | Some e \<Rightarrow> Some (s\<lparr>heap := (heap s)(a \<mapsto> f e)\<rparr>))"

definition wrp ::
  "addr option \<Rightarrow> (GDALProxyPoolCacheEntry \<Rightarrow> GDALProxyPoolCacheEntry) \<Rightarrow> gstate \<Rightarrow> gstate option" where
  "wrp p f s = (case p of None \<Rightarrow> None | Some a \<Rightarrow> wr a f s)"

text \<open>An assignment to fields of the pool object (\<open>this\<close>, which is the singleton).\<close>

definition wrpool :: "(GDALDatasetPool \<Rightarrow> GDALDatasetPool) \<Rightarrow> gstate \<Rightarrow> gstate option" where
  "wrpool f s = (case singleton s of None \<Rightarrow> None | Some p \<Rightarrow> Some (s\<lparr>singleton := Some (f p)\<rparr>))"

subsection \<open>The pool\<close>

text \<open>The constructor \<open>GDALDatasetPool::GDALDatasetPool(int maxSize)\<close>.\<close>

definition GDALDatasetPool_new :: "int \<Rightarrow> GDALDatasetPool" where
  "GDALDatasetPool_new maxSizeIn =
     \<lparr>poolRefCount = 0, maxSize = maxSizeIn, currentSize = 0, firstEntry = None,
      lastEntry = None, refCountOfDisableRefCount = 0\<rparr>"

text \<open>
  The loop of the destructor \<open>~GDALDatasetPool\<close>: each entry is closed under its own
  responsible PID and freed.
\<close>

partial_function (option) destroy_entries :: "env \<Rightarrow> addr option \<Rightarrow> gstate \<Rightarrow> gstate option" where
  "destroy_entries ev cur s =
     (case cur of
        None \<Rightarrow> Some s
      | Some a \<Rightarrow>
          (case heap s a of
             None \<Rightarrow> None
           | Some e \<Rightarrow>
               if debug ev \<and> refCount e \<noteq> 0 then None
               else
                 let s1 = (case poDS e of
                             None \<Rightarrow> s
                           | Some d \<Rightarrow>
                               GDALClose ev d
                                 (GDALSetResponsiblePIDForCurrentThread (responsiblePID e) s))
                 in destroy_entries ev (nxt e) (s1\<lparr>heap := (heap s1)(a := None)\<rparr>)))"

declare destroy_entries.simps [code]

definition GDALDatasetPool_delete :: "env \<Rightarrow> gstate \<Rightarrow> gstate option" where
  "GDALDatasetPool_delete ev s = do {
     p \<leftarrow> singleton s;
     let responsiblePID = GDALGetResponsiblePIDForCurrentThread s;
     s \<leftarrow> destroy_entries ev (firstEntry p) s;
     Some (GDALSetResponsiblePIDForCurrentThread responsiblePID s)
   }"

text \<open>
  The scan at the head of \<open>_RefDataset\<close> (lines 202-236) reads only: it returns the first
  entry that matches, and the last entry with a zero reference count met before it.
\<close>

partial_function (option) RefDataset_scan ::
  "(addr \<Rightarrow> GDALProxyPoolCacheEntry option) \<Rightarrow> string \<Rightarrow> bool \<Rightarrow> int \<Rightarrow> addr option \<Rightarrow> addr option
     \<Rightarrow> (addr option \<times> addr option) option" where
  "RefDataset_scan h fn bSh pid cur lastEntryWithZeroRefCount =
     (case cur of
        None \<Rightarrow> Some (None, lastEntryWithZeroRefCount)
      | Some a \<Rightarrow>
          (case h a of
             None \<Rightarrow> None
           | Some e \<Rightarrow>
               if pszFileName e = fn \<and>
                  ((bSh \<and> responsiblePID e = pid) \<or> (\<not> bSh \<and> refCount e = 0))
               then Some (Some a, lastEntryWithZeroRefCount)
               else RefDataset_scan h fn bSh pid (nxt e)
                      (if refCount e = 0 then Some a else lastEntryWithZeroRefCount)))"

declare RefDataset_scan.simps [code]

text \<open>"Move to begin" (lines 212-221), for a matching entry that is not the first.\<close>

definition move_to_begin :: "addr \<Rightarrow> gstate \<Rightarrow> gstate option" where
  "move_to_begin cur s = do {
     e \<leftarrow> rd s cur;
     s \<leftarrow> (case nxt e of
             Some n \<Rightarrow> wr n (\<lambda>x. x\<lparr>prev := prev e\<rparr>) s
           | None \<Rightarrow> wrpool (\<lambda>p. p\<lparr>lastEntry := prev e\<rparr>) s);
     e \<leftarrow> rd s cur;
     s \<leftarrow> wrp (prev e) (\<lambda>x. x\<lparr>nxt := nxt e\<rparr>) s;
     s \<leftarrow> wr cur (\<lambda>x. x\<lparr>prev := None\<rparr>) s;
     p \<leftarrow> singleton s;
     s \<leftarrow> wrp (firstEntry p) (\<lambda>x. x\<lparr>prev := Some cur\<rparr>) s;
     s \<leftarrow> wr cur (\<lambda>x. x\<lparr>nxt := firstEntry p\<rparr>) s;
     wrpool (\<lambda>p. p\<lparr>firstEntry := Some cur\<rparr>) s
   }"

text \<open>
  The eviction of \<open>lastEntryWithZeroRefCount\<close> (lines 249-283), in the three parts the
  code has. First the dataset of the victim is closed under the PID that opened it
  (lines 249-263).
\<close>

definition evict_close :: "env \<Rightarrow> addr \<Rightarrow> int \<Rightarrow> gstate \<Rightarrow> gstate option" where
  "evict_close ev v responsiblePID0 s = do {
     s \<leftarrow> wr v (\<lambda>x. x\<lparr>pszFileName := []\<rparr>) s;
     e \<leftarrow> rd s v;
     case poDS e of
       None \<Rightarrow> Some s
     | Some d \<Rightarrow> do {
         let s = GDALSetResponsiblePIDForCurrentThread (responsiblePID e) s;
         s \<leftarrow> wrpool (\<lambda>p. p\<lparr>refCountOfDisableRefCount := refCountOfDisableRefCount p + 1\<rparr>) s;
         let s = GDALClose ev d s;
         s \<leftarrow> wrpool (\<lambda>p. p\<lparr>refCountOfDisableRefCount := refCountOfDisableRefCount p - 1\<rparr>) s;
         s \<leftarrow> wr v (\<lambda>x. x\<lparr>poDS := None\<rparr>) s;
         Some (GDALSetResponsiblePIDForCurrentThread responsiblePID0 s)
       }
   }"

text \<open>
  Then the victim is taken out of the list (lines 267-279). Where it has no \<open>prev\<close> the
  code has \<open>CPLAssert(0)\<close> and goes on.
\<close>

definition evict_unlink :: "env \<Rightarrow> addr \<Rightarrow> gstate \<Rightarrow> gstate option" where
  "evict_unlink ev v s = do {
     e \<leftarrow> rd s v;
     s \<leftarrow> (case prev e of
             Some a \<Rightarrow> wr a (\<lambda>x. x\<lparr>nxt := nxt e\<rparr>) s
           | None \<Rightarrow> if debug ev then None else Some s);
     e \<leftarrow> rd s v;
     case nxt e of
       Some n \<Rightarrow> wr n (\<lambda>x. x\<lparr>prev := prev e\<rparr>) s
     | None \<Rightarrow> do {
         p \<leftarrow> singleton s;
         l \<leftarrow> (if debug ev \<and> lastEntry p \<noteq> Some v then None else rdp s (lastEntry p));
         s \<leftarrow> wrp (prev l) (\<lambda>x. x\<lparr>nxt := None\<rparr>) s;
         l \<leftarrow> rdp s (lastEntry p);
         wrpool (\<lambda>p. p\<lparr>lastEntry := prev l\<rparr>) s
       }
   }"

text \<open>At last it is put first (lines 280-283).\<close>

definition evict_relink :: "addr \<Rightarrow> gstate \<Rightarrow> gstate option" where
  "evict_relink v s = do {
     s \<leftarrow> wr v (\<lambda>x. x\<lparr>prev := None\<rparr>) s;
     p \<leftarrow> singleton s;
     s \<leftarrow> wr v (\<lambda>x. x\<lparr>nxt := firstEntry p\<rparr>) s;
     s \<leftarrow> wrp (firstEntry p) (\<lambda>x. x\<lparr>prev := Some v\<rparr>) s;
     wrpool (\<lambda>p. p\<lparr>firstEntry := Some v\<rparr>) s
   }"

definition evict :: "env \<Rightarrow> addr \<Rightarrow> int \<Rightarrow> gstate \<Rightarrow> gstate option" where
  "evict ev v responsiblePID0 s = do {
     s \<leftarrow> evict_close ev v responsiblePID0 s;
     s \<leftarrow> evict_unlink ev v s;
     evict_relink v s
   }"

text \<open>
  "Prepend" (lines 291-299): a new entry is allocated and linked first. The fields of the
  fresh block are not initialised by \<open>CPLMalloc\<close>; all but \<open>poDS\<close> are assigned before
  the entry is read.
\<close>

definition CPLMalloc_entry :: "gstate \<Rightarrow> addr \<times> gstate" where
  "CPLMalloc_entry s =
     (nextAddr s,
      s\<lparr>heap := (heap s)(nextAddr s \<mapsto>
           \<lparr>responsiblePID = 0, pszFileName = [], poDS = None, refCount = 0,
            prev = None, nxt = None\<rparr>),
        nextAddr := Suc (nextAddr s)\<rparr>)"

definition prepend :: "gstate \<Rightarrow> (addr \<times> gstate) option" where
  "prepend s0 = do {
     let (cur, s) = CPLMalloc_entry s0;
     p \<leftarrow> singleton s;
     s \<leftarrow> (if lastEntry p = None then wrpool (\<lambda>p. p\<lparr>lastEntry := Some cur\<rparr>) s else Some s);
     s \<leftarrow> wr cur (\<lambda>x. x\<lparr>prev := None\<rparr>) s;
     s \<leftarrow> wr cur (\<lambda>x. x\<lparr>nxt := firstEntry p\<rparr>) s;
     s \<leftarrow> (case firstEntry p of
             Some f \<Rightarrow> wr f (\<lambda>x. x\<lparr>prev := Some cur\<rparr>) s
           | None \<Rightarrow> Some s);
     s \<leftarrow> wrpool (\<lambda>p. p\<lparr>firstEntry := Some cur\<rparr>) s;
     s \<leftarrow> wrpool (\<lambda>p. p\<lparr>currentSize := currentSize p + 1\<rparr>) s;
     Some (cur, s)
   }"

text \<open>The tail of \<open>_RefDataset\<close> (lines 305-315): the entry is filled and the dataset opened.\<close>

definition open_entry ::
  "env \<Rightarrow> addr \<Rightarrow> string \<Rightarrow> GDALAccess \<Rightarrow> string list option \<Rightarrow> int \<Rightarrow> gstate
     \<Rightarrow> (addr option \<times> gstate) option" where
  "open_entry ev cur fn acc opts responsiblePID0 s = do {
     s \<leftarrow> wr cur (\<lambda>x. x\<lparr>pszFileName := fn\<rparr>) s;
     s \<leftarrow> wr cur (\<lambda>x. x\<lparr>responsiblePID := responsiblePID0\<rparr>) s;
     s \<leftarrow> wr cur (\<lambda>x. x\<lparr>refCount := 1\<rparr>) s;
     s \<leftarrow> wrpool (\<lambda>p. p\<lparr>refCountOfDisableRefCount := refCountOfDisableRefCount p + 1\<rparr>) s;
     let nFlag = [if acc = GA_Update then GDAL_OF_UPDATE else GDAL_OF_READONLY,
                  GDAL_OF_RASTER, GDAL_OF_VERBOSE_ERROR];
     let (d, s) = GDALOpenEx ev fn nFlag opts s;
     s \<leftarrow> wr cur (\<lambda>x. x\<lparr>poDS := d\<rparr>) s;
     s \<leftarrow> wrpool (\<lambda>p. p\<lparr>refCountOfDisableRefCount := refCountOfDisableRefCount p - 1\<rparr>) s;
     Some (Some cur, s)
   }"

text \<open>
  \<open>GDALDatasetPool::_RefDataset\<close>. The result \<open>None\<close> inside \<open>Some\<close> is the \<open>NULL\<close> of a
  full pool.
\<close>

definition priv_RefDataset ::
  "env \<Rightarrow> string \<Rightarrow> GDALAccess \<Rightarrow> string list option \<Rightarrow> bool \<Rightarrow> gstate
     \<Rightarrow> (addr option \<times> gstate) option" where
  "priv_RefDataset ev fn acc opts bSh s = do {
     p \<leftarrow> singleton s;
     let responsiblePID0 = GDALGetResponsiblePIDForCurrentThread s;
     (found, lastEntryWithZeroRefCount) \<leftarrow>
        RefDataset_scan (heap s) fn bSh responsiblePID0 (firstEntry p) None;
     case found of
       Some cur \<Rightarrow> do {
         s \<leftarrow> (if Some cur \<noteq> firstEntry p then move_to_begin cur s else Some s);
         s \<leftarrow> wr cur (\<lambda>x. x\<lparr>refCount := refCount x + 1\<rparr>) s;
         Some (Some cur, s)
       }
     | None \<Rightarrow>
         if currentSize p = maxSize p then
           (case lastEntryWithZeroRefCount of
              None \<Rightarrow> Some (None, s\<lparr>trace := trace s @ [EvError (maxSize p)]\<rparr>)
            | Some v \<Rightarrow> do {
                s \<leftarrow> evict ev v responsiblePID0 s;
                open_entry ev v fn acc opts responsiblePID0 s
              })
         else do {
           (cur, s) \<leftarrow> prepend s;
           open_entry ev cur fn acc opts responsiblePID0 s
         }
   }"

text \<open>The scan of \<open>_CloseDataset\<close> (lines 327-351) up to the entry it closes.\<close>

partial_function (option) CloseDataset_scan ::
  "(addr \<Rightarrow> GDALProxyPoolCacheEntry option) \<Rightarrow> string \<Rightarrow> addr option \<Rightarrow> addr option option" where
  "CloseDataset_scan h fn cur =
     (case cur of
        None \<Rightarrow> Some None
      | Some a \<Rightarrow>
          (case h a of
             None \<Rightarrow> None
           | Some e \<Rightarrow>
               if pszFileName e = fn \<and> refCount e = 0 \<and> poDS e \<noteq> None
               then Some (Some a)
               else CloseDataset_scan h fn (nxt e)))"

declare CloseDataset_scan.simps [code]

text \<open>\<open>GDALDatasetPool::_CloseDataset\<close>; the access mode is unused.\<close>

definition priv_CloseDataset :: "env \<Rightarrow> string \<Rightarrow> GDALAccess \<Rightarrow> gstate \<Rightarrow> gstate option" where
  "priv_CloseDataset ev fn acc s = do {
     p \<leftarrow> singleton s;
     let responsiblePID0 = GDALGetResponsiblePIDForCurrentThread s;
     found \<leftarrow> CloseDataset_scan (heap s) fn (firstEntry p);
     case found of
       None \<Rightarrow> Some s
     | Some cur \<Rightarrow> do {
         e \<leftarrow> rd s cur;
         d \<leftarrow> poDS e;
         let s = GDALSetResponsiblePIDForCurrentThread (responsiblePID e) s;
         s \<leftarrow> wrpool (\<lambda>p. p\<lparr>refCountOfDisableRefCount := refCountOfDisableRefCount p + 1\<rparr>) s;
         let s = GDALClose ev d s;
         s \<leftarrow> wrpool (\<lambda>p. p\<lparr>refCountOfDisableRefCount := refCountOfDisableRefCount p - 1\<rparr>) s;
         let s = GDALSetResponsiblePIDForCurrentThread responsiblePID0 s;
         s \<leftarrow> wr cur (\<lambda>x. x\<lparr>poDS := None\<rparr>) s;
         wr cur (\<lambda>x. x\<lparr>pszFileName := []\<rparr>) s
       }
   }"

text \<open>\<open>GDALDatasetPool::Ref\<close>.\<close>

definition Ref :: "env \<Rightarrow> gstate \<Rightarrow> gstate" where
  "Ref ev s =
     (let s1 = (case singleton s of
                  None \<Rightarrow>
                    (let l_maxSize = atoi (CPLGetConfigOption ev ''GDAL_MAX_DATASET_POOL_SIZE'' ''100'');
                         l_maxSize = (if l_maxSize < 2 \<or> l_maxSize > 1000 then 100 else l_maxSize)
                     in s\<lparr>singleton := Some (GDALDatasetPool_new l_maxSize)\<rparr>)
                | Some p \<Rightarrow> s)
      in case singleton s1 of
           None \<Rightarrow> s1
         | Some p \<Rightarrow>
             if refCountOfDisableRefCount p = 0
             then s1\<lparr>singleton := Some (p\<lparr>poolRefCount := poolRefCount p + 1\<rparr>)\<rparr>
             else s1)"

text \<open>\<open>GDALDatasetPool::PreventDestroy\<close>.\<close>

definition PreventDestroy :: "gstate \<Rightarrow> gstate" where
  "PreventDestroy s =
     (case singleton s of
        None \<Rightarrow> s
      | Some p \<Rightarrow>
          s\<lparr>singleton := Some (p\<lparr>refCountOfDisableRefCount := refCountOfDisableRefCount p + 1\<rparr>)\<rparr>)"

text \<open>\<open>GDALDatasetPool::Unref\<close>.\<close>

definition Unref :: "env \<Rightarrow> gstate \<Rightarrow> gstate option" where
  "Unref ev s =
     (case singleton s of
        None \<Rightarrow> if debug ev then None else Some s
      | Some p \<Rightarrow>
          if refCountOfDisableRefCount p = 0 then
            (let s1 = s\<lparr>singleton := Some (p\<lparr>poolRefCount := poolRefCount p - 1\<rparr>)\<rparr>
             in if poolRefCount p - 1 = 0 then do {
                  s2 \<leftarrow> GDALDatasetPool_delete ev s1;
                  Some (s2\<lparr>singleton := None\<rparr>)
                } else Some s1)
          else Some s)"

text \<open>\<open>GDALDatasetPool::ForceDestroy\<close>.\<close>

definition ForceDestroy :: "env \<Rightarrow> gstate \<Rightarrow> gstate option" where
  "ForceDestroy ev s =
     (case singleton s of
        None \<Rightarrow> Some s
      | Some p \<Rightarrow>
          if debug ev \<and> refCountOfDisableRefCount p - 1 \<noteq> 0 then None
          else do {
            s2 \<leftarrow> GDALDatasetPool_delete ev
                    (s\<lparr>singleton := Some (p\<lparr>refCountOfDisableRefCount := refCountOfDisableRefCount p - 1,
                                           poolRefCount := 0\<rparr>)\<rparr>);
            Some (s2\<lparr>singleton := None\<rparr>)
          })"

text \<open>
  The static entry points \<open>RefDataset\<close>, \<open>UnrefDataset\<close> and \<open>CloseDataset\<close>: the first and
  the last call through the singleton pointer without a test.
\<close>

definition RefDataset ::
  "env \<Rightarrow> string \<Rightarrow> GDALAccess \<Rightarrow> string list option \<Rightarrow> bool \<Rightarrow> gstate
     \<Rightarrow> (addr option \<times> gstate) option" where
  "RefDataset ev fn acc opts bSh s =
     (case singleton s of
        None \<Rightarrow> None
      | Some p \<Rightarrow> priv_RefDataset ev fn acc opts bSh s)"

definition UnrefDataset :: "addr option \<Rightarrow> gstate \<Rightarrow> gstate option" where
  "UnrefDataset cacheEntry0 s = wrp cacheEntry0 (\<lambda>x. x\<lparr>refCount := refCount x - 1\<rparr>) s"

definition CloseDataset :: "env \<Rightarrow> string \<Rightarrow> GDALAccess \<Rightarrow> gstate \<Rightarrow> gstate option" where
  "CloseDataset ev fn acc s =
     (case singleton s of
        None \<Rightarrow> None
      | Some p \<Rightarrow> priv_CloseDataset ev fn acc s)"

subsection \<open>The proxy dataset\<close>

text \<open>
  The fields of \<open>class GDALProxyPoolDataset\<close> the constructor sets; its field
  \<open>responsiblePID\<close> is called \<open>dsResponsiblePID\<close>. A \<open>double\<close> is a real number here:
  the code only copies the six values.
\<close>

record GDALProxyPoolDataset =
  description :: string
  nRasterXSize :: int
  nRasterYSize :: int
  eAccess :: GDALAccess
  bShared :: bool
  dsResponsiblePID :: int
  pszProjectionRef :: "string option"
  bHasSrcProjection :: bool
  adfGeoTransform :: "real list"
  bHasSrcGeoTransform :: bool
  pszGCPProjection :: "string option"
  nGCPCount :: int
  papszOpenOptions :: "string list option"
  cacheEntry :: "addr option"

text \<open>
  \<open>CPLStrdup\<close> (port/cpl_string.cpp, not among the sources) copies a string; what it makes
  of \<open>NULL\<close> is the parameter \<open>strdupNull\<close>.
\<close>

definition CPLStrdup :: "string option \<Rightarrow> string option \<Rightarrow> string option" where
  "CPLStrdup strdupNull p = (case p of None \<Rightarrow> strdupNull | Some v \<Rightarrow> Some v)"

text \<open>The constructor \<open>GDALProxyPoolDataset::GDALProxyPoolDataset\<close> (lines 549-599).\<close>

definition GDALProxyPoolDataset_new ::
  "env \<Rightarrow> string option \<Rightarrow> string \<Rightarrow> int \<Rightarrow> int \<Rightarrow> GDALAccess \<Rightarrow> bool \<Rightarrow> string option
     \<Rightarrow> real list option \<Rightarrow> gstate \<Rightarrow> GDALProxyPoolDataset \<times> gstate" where
  "GDALProxyPoolDataset_new ev strdupNull pszSourceDatasetDescription nRasterXSizeIn
       nRasterYSizeIn eAccessIn bSharedIn pszProjectionRefIn padfGeoTransform s0 =
     (let s = Ref ev s0 in
      (\<lparr>description = pszSourceDatasetDescription,
        nRasterXSize = nRasterXSizeIn,
        nRasterYSize = nRasterYSizeIn,
        eAccess = eAccessIn,
        bShared = bSharedIn,
        dsResponsiblePID = GDALGetResponsiblePIDForCurrentThread s,
        pszProjectionRef =
          (if pszProjectionRefIn \<noteq> None then None else CPLStrdup strdupNull pszProjectionRefIn),
        bHasSrcProjection = (if pszProjectionRefIn \<noteq> None then False else True),
        adfGeoTransform =
          (case padfGeoTransform of Some g \<Rightarrow> take 6 g | None \<Rightarrow> [0, 1, 0, 0, 0, 1]),
        bHasSrcGeoTransform = (case padfGeoTransform of Some g \<Rightarrow> True | None \<Rightarrow> False),
        pszGCPProjection = None,
        nGCPCount = 0,
        papszOpenOptions = None,
        cacheEntry = None\<rparr>, s))"

text \<open>\<open>GDALProxyPoolDataset::RefUnderlyingDataset\<close> (lines 656-681).\<close>

definition RefUnderlyingDataset ::
  "env \<Rightarrow> GDALProxyPoolDataset \<Rightarrow> gstate \<Rightarrow> (dataset option \<times> GDALProxyPoolDataset \<times> gstate) option" where
  "RefUnderlyingDataset ev ds s = do {
     let curResponsiblePID = GDALGetResponsiblePIDForCurrentThread s;
     let s = GDALSetResponsiblePIDForCurrentThread (dsResponsiblePID ds) s;
     (ce, s) \<leftarrow> RefDataset ev (description ds) (eAccess ds) (papszOpenOptions ds) (bShared ds) s;
     let ds = ds\<lparr>cacheEntry := ce\<rparr>;
     let s = GDALSetResponsiblePIDForCurrentThread curResponsiblePID s;
     case ce of
       None \<Rightarrow> Some (None, ds, s)
     | Some a \<Rightarrow> do {
         e \<leftarrow> rd s a;
         case poDS e of
           Some d \<Rightarrow> Some (Some d, ds, s)
         | None \<Rightarrow> do {
             s \<leftarrow> UnrefDataset (Some a) s;
             Some (None, ds, s)
           }
       }
   }"

text \<open>\<open>GDALProxyPoolDataset::UnrefUnderlyingDataset\<close> (lines 687-695).\<close>

definition UnrefUnderlyingDataset ::
  "env \<Rightarrow> GDALProxyPoolDataset \<Rightarrow> dataset option \<Rightarrow> gstate \<Rightarrow> gstate option" where
  "UnrefUnderlyingDataset ev ds poUnderlyingDataset s =
     (case cacheEntry ds of
        None \<Rightarrow> Some s
      | Some a \<Rightarrow> do {
          e \<leftarrow> rd s a;
          if debug ev \<and> poDS e \<noteq> poUnderlyingDataset then None
          else if poDS e \<noteq> None then UnrefDataset (Some a) s
          else Some s
        })"

text \<open>
  Modelled from the spec: \<open>GDALProxyDataset::GetProjectionRef\<close> and
  \<open>GDALProxyDataset::GetGeoTransform\<close> (gcore/gdalproxydataset.cpp, not among the sources)
  ref the underlying source, delegate, unref, and return; without an underlying source
  they return nothing.
\<close>

definition GDALProxyDataset_GetProjectionRef ::
  "env \<Rightarrow> GDALProxyPoolDataset \<Rightarrow> gstate \<Rightarrow> (string option \<times> GDALProxyPoolDataset \<times> gstate) option" where
  "GDALProxyDataset_GetProjectionRef ev ds s = do {
     (u, ds, s) \<leftarrow> RefUnderlyingDataset ev ds s;
     case u of
       None \<Rightarrow> Some (None, ds, s)
     | Some d \<Rightarrow> do {
         s \<leftarrow> UnrefUnderlyingDataset ev ds (Some d) s;
         Some (srcProjectionRef ev d, ds, s)
       }
   }"

definition GDALProxyDataset_GetGeoTransform ::
  "env \<Rightarrow> GDALProxyPoolDataset \<Rightarrow> gstate \<Rightarrow> (real list option \<times> GDALProxyPoolDataset \<times> gstate) option" where
  "GDALProxyDataset_GetGeoTransform ev ds s = do {
     (u, ds, s) \<leftarrow> RefUnderlyingDataset ev ds s;
     case u of
       None \<Rightarrow> Some (None, ds, s)
     | Some d \<Rightarrow> do {
         s \<leftarrow> UnrefUnderlyingDataset ev ds (Some d) s;
         Some (srcGeoTransform ev d, ds, s)
       }
   }"

text \<open>\<open>GDALProxyPoolDataset::GetProjectionRef\<close> (lines 711-717).\<close>

definition GetProjectionRef ::
  "env \<Rightarrow> GDALProxyPoolDataset \<Rightarrow> gstate \<Rightarrow> (string option \<times> GDALProxyPoolDataset \<times> gstate) option" where
  "GetProjectionRef ev ds s =
     (if bHasSrcProjection ds then Some (pszProjectionRef ds, ds, s)
      else GDALProxyDataset_GetProjectionRef ev ds s)"

text \<open>
  \<open>GDALProxyPoolDataset::GetGeoTransform\<close> (lines 733-744); the result is the content of
  the caller's buffer when the return code is \<open>CE_None\<close>.
\<close>

definition GetGeoTransform ::
  "env \<Rightarrow> GDALProxyPoolDataset \<Rightarrow> gstate \<Rightarrow> (real list option \<times> GDALProxyPoolDataset \<times> gstate) option" where
  "GetGeoTransform ev ds s =
     (if bHasSrcGeoTransform ds then Some (Some (take 6 (adfGeoTransform ds)), ds, s)
      else GDALProxyDataset_GetGeoTransform ev ds s)"

text \<open>The destructor \<open>GDALProxyPoolDataset::~GDALProxyPoolDataset\<close> (lines 605-631).\<close>

definition GDALProxyPoolDataset_delete :: "env \<Rightarrow> GDALProxyPoolDataset \<Rightarrow> gstate \<Rightarrow> gstate option" where
  "GDALProxyPoolDataset_delete ev ds s = do {
     s \<leftarrow> (if \<not> bShared ds then CloseDataset ev (description ds) (eAccess ds) s else Some s);
     Unref ev s
   }"

subsection \<open>Concrete surroundings\<close>

text \<open>
  A driver that does not re-enter the pool: opening \<open>fn\<close> yields \<open>opener fn\<close> and leaves
  the global state alone, closing does nothing more.
\<close>

definition plain_env :: "(string \<Rightarrow> dataset option) \<Rightarrow> (string \<Rightarrow> string option) \<Rightarrow> bool \<Rightarrow> env" where
  "plain_env opener cfg dbg =
     \<lparr>openEx = (\<lambda>fn flags opts s. (opener fn, s)),
      closeDS = (\<lambda>d s. s),
      configOptions = cfg,
      srcProjectionRef = (\<lambda>d. Some ''underlying''),
      srcGeoTransform = (\<lambda>d. Some [0, 1, 0, 0, 0, 1]),
      debug = dbg\<rparr>"

text \<open>The state of a process in which no pool exists yet, running the thread \<open>pid\<close>.\<close>

definition init_state :: "int \<Rightarrow> gstate" where
  "init_state pid = \<lparr>singleton = None, heap = (\<lambda>a. None), nextAddr = 1, curPID = pid, trace = []\<rparr>"

text \<open>
  The list the pool holds, read off the store: \<open>dll h pr cur as\<close> says that following
  \<open>next\<close> from \<open>cur\<close> visits exactly the addresses \<open>as\<close> and then \<open>NULL\<close>, and that each
  \<open>prev\<close> points back (to \<open>pr\<close> for the first).
\<close>

fun dll :: "(addr \<Rightarrow> GDALProxyPoolCacheEntry option) \<Rightarrow> addr option \<Rightarrow> addr option \<Rightarrow> addr list \<Rightarrow> bool" where
  "dll h pr cur [] = (cur = None)"
| "dll h pr cur (a # as) =
     (cur = Some a \<and>
      (case h a of None \<Rightarrow> False | Some e \<Rightarrow> prev e = pr \<and> dll h (Some a) (nxt e) as))"

text \<open>
  The links of the pool are sound for the address list \<open>as\<close>: \<open>CheckLinks\<close> would pass.
\<close>

definition pool_list :: "gstate \<Rightarrow> addr list \<Rightarrow> bool" where
  "pool_list s as =
     (case singleton s of
        None \<Rightarrow> False
      | Some p \<Rightarrow>
          dll (heap s) None (firstEntry p) as \<and> distinct as \<and>
          lastEntry p = (if as = [] then None else Some (last as)) \<and>
          currentSize p = int (length as))"

text \<open>Concrete surroundings for the examples: a configuration and a driver.\<close>

definition pool_size_config :: "string \<Rightarrow> string \<Rightarrow> string option" where
  "pool_size_config v key = (if key = ''GDAL_MAX_DATASET_POOL_SIZE'' then Some v else None)"

definition no_config :: "string \<Rightarrow> string option" where
  "no_config key = None"

definition test_opener :: "string \<Rightarrow> dataset option" where
  "test_opener fn =
     (if fn = ''A'' then Some 10 else if fn = ''B'' then Some 20
      else if fn = ''C'' then Some 30 else None)"

text \<open>The clamp to \<open>[2, 1000]\<close> that the specification words, for comparison.\<close>

definition spec_clamped_maxSize :: "int \<Rightarrow> int" where
  "spec_clamped_maxSize v = max 2 (min 1000 v)"

subsection \<open>Vocabulary of the properties\<close>

text \<open>The test of lines 206-208: the entry is the one \<open>_RefDataset\<close> is looking for.\<close>

definition entry_matches :: "string \<Rightarrow> bool \<Rightarrow> int \<Rightarrow> GDALProxyPoolCacheEntry \<Rightarrow> bool" where
  "entry_matches fn bSh pid e =
     (pszFileName e = fn \<and> ((bSh \<and> responsiblePID e = pid) \<or> (\<not> bSh \<and> refCount e = 0)))"

text \<open>What an entry holds besides its links, and what the pool holds besides its two ends.\<close>

definition payload :: "GDALProxyPoolCacheEntry \<Rightarrow> int \<times> string \<times> dataset option \<times> int" where
  "payload e = (responsiblePID e, pszFileName e, poDS e, refCount e)"

definition pool_counts :: "GDALDatasetPool \<Rightarrow> int \<times> int \<times> int \<times> int" where
  "pool_counts p = (poolRefCount p, maxSize p, currentSize p, refCountOfDisableRefCount p)"

text \<open>Two states that differ in links only.\<close>

definition links_only :: "gstate \<Rightarrow> gstate \<Rightarrow> bool" where
  "links_only s s' =
     ((\<forall>a. map_option payload (heap s' a) = map_option payload (heap s a)) \<and>
      curPID s' = curPID s \<and> trace s' = trace s \<and> nextAddr s' = nextAddr s \<and>
      map_option pool_counts (singleton s') = map_option pool_counts (singleton s))"

text \<open>\<open>post m Q\<close>: if the computation \<open>m\<close> has a result, the result satisfies \<open>Q\<close>.\<close>

definition post :: "'a option \<Rightarrow> ('a \<Rightarrow> bool) \<Rightarrow> bool" where
  "post m Q = (case m of None \<Rightarrow> True | Some y \<Rightarrow> Q y)"

text \<open>
  The reference count of the entry that a lookup of \<open>fn\<close> hits in the state \<open>s\<close>, and 0
  when the lookup misses.
\<close>

definition hit_refCount :: "gstate \<Rightarrow> string \<Rightarrow> bool \<Rightarrow> int" where
  "hit_refCount s fn bSh =
     (case singleton s of
        None \<Rightarrow> 0
      | Some p \<Rightarrow>
          (case RefDataset_scan (heap s) fn bSh (curPID s) (firstEntry p) None of
             Some (Some a, lz) \<Rightarrow> (case heap s a of Some e \<Rightarrow> refCount e | None \<Rightarrow> 0)
           | _ \<Rightarrow> 0))"

text \<open>
  A driver whose datasets own a proxy dataset, as a VRT does whose source is itself
  handled by the pool: opening a file constructs a shared proxy dataset on \<open>inner\<close>,
  which the opened dataset keeps, and closing the dataset destroys that proxy dataset.
  The destructor reads the description, the access mode and the shared flag only, so
  the proxy dataset is rebuilt from these where it is destroyed.
\<close>

definition inner_proxy ::
  "(string \<Rightarrow> string option) \<Rightarrow> string \<Rightarrow> gstate \<Rightarrow> GDALProxyPoolDataset \<times> gstate" where
  "inner_proxy cfg inner s =
     GDALProxyPoolDataset_new (plain_env (\<lambda>fn. None) cfg False) None inner 1 1 GA_ReadOnly True
       None None s"

definition inner_env ::
  "(string \<Rightarrow> dataset option) \<Rightarrow> (string \<Rightarrow> string option) \<Rightarrow> bool \<Rightarrow> string \<Rightarrow> env" where
  "inner_env opener cfg dbg inner =
     (plain_env opener cfg dbg)
       \<lparr>openEx :=
          (\<lambda>fn flags opts s.
             case opener fn of
               None \<Rightarrow> (None, s)
             | Some d \<Rightarrow> (Some d, snd (inner_proxy cfg inner s))),
        closeDS :=
          (\<lambda>d s.
             case GDALProxyPoolDataset_delete (plain_env opener cfg dbg)
                    (fst (inner_proxy cfg inner s)) s of
               None \<Rightarrow> s
             | Some s' \<Rightarrow> s')\<rparr>"

text \<open>
  The \<open>lastEntryWithZeroRefCount\<close> that a scan without a match leaves, computed on the
  list of addresses.
\<close>

fun last_zero :: "(addr \<Rightarrow> GDALProxyPoolCacheEntry option) \<Rightarrow> addr list \<Rightarrow> addr option \<Rightarrow> addr option" where
  "last_zero h [] lz = lz"
| "last_zero h (a # as) lz =
     last_zero h as (case h a of None \<Rightarrow> lz | Some e \<Rightarrow> if refCount e = 0 then Some a else lz)"

text \<open>Every address of the list holds an entry, and the entry satisfies \<open>P\<close>.\<close>

definition all_entries :: "gstate \<Rightarrow> addr list \<Rightarrow> (GDALProxyPoolCacheEntry \<Rightarrow> bool) \<Rightarrow> bool" where
  "all_entries s as P = list_all (\<lambda>a. case heap s a of None \<Rightarrow> False | Some e \<Rightarrow> P e) as"

text \<open>
  The entry that \<open>_RefDataset\<close> evicts for the file \<open>fn\<close> in the state \<open>s\<close>, with its
  \<open>prev\<close> link: defined when the scan misses, the pool is full and an entry has a
  zero reference count.
\<close>

definition victim_link :: "string \<Rightarrow> bool \<Rightarrow> gstate \<Rightarrow> (addr \<times> addr option) option" where
  "victim_link fn bSh s = do {
     p \<leftarrow> singleton s;
     (found, lz) \<leftarrow> RefDataset_scan (heap s) fn bSh (curPID s) (firstEntry p) None;
     v \<leftarrow> (if found = None \<and> currentSize p = maxSize p then lz else None);
     e \<leftarrow> heap s v;
     Some (v, prev e)
   }"

text \<open>
  A segment of the list: following \<open>next\<close> from \<open>cur\<close> visits the addresses \<open>as\<close> and ends
  at \<open>nx\<close>, each \<open>prev\<close> pointing back (to \<open>pr\<close> for the first); \<open>lastp pr as\<close> is the
  pointer to the last entry of the segment.
\<close>

fun dlseg :: "(addr \<Rightarrow> GDALProxyPoolCacheEntry option) \<Rightarrow> addr option \<Rightarrow> addr option \<Rightarrow> addr list \<Rightarrow> addr option \<Rightarrow> bool" where
  "dlseg h pr cur [] nx = (cur = nx)"
| "dlseg h pr cur (a # as) nx =
     (cur = Some a \<and>
      (case h a of None \<Rightarrow> False | Some e \<Rightarrow> prev e = pr \<and> dlseg h (Some a) (nxt e) as nx))"

definition lastp :: "addr option \<Rightarrow> addr list \<Rightarrow> addr option" where
  "lastp pr as = (if as = [] then pr else Some (last as))"



text \<open>
  The slot that \<open>_RefDataset\<close> uses when no entry of the list \<open>as\<close> matches: in a full
  pool the last entry with reference count 0, provided it is not the first of the list;
  otherwise a fresh address.
\<close>

definition slot_of_miss :: "gstate \<Rightarrow> addr list \<Rightarrow> addr option" where
  "slot_of_miss s as =
     (case singleton s of
        None \<Rightarrow> None
      | Some p \<Rightarrow>
          if currentSize p = maxSize p then
            (case last_zero (heap s) as None of
               None \<Rightarrow> None
             | Some v \<Rightarrow> if Some v = firstEntry p then None else Some v)
          else if nextAddr s \<in> set as then None else Some (nextAddr s))"


text \<open>
  The two halves of "move to begin" (lines 213-217 and 218-221): the entry is taken out
  of the list, then it is put first.
\<close>

definition move_unlink :: "addr \<Rightarrow> gstate \<Rightarrow> gstate option" where
  "move_unlink cur s = do {
     e \<leftarrow> rd s cur;
     s \<leftarrow> (case nxt e of
             Some n \<Rightarrow> wr n (\<lambda>x. x\<lparr>prev := prev e\<rparr>) s
           | None \<Rightarrow> wrpool (\<lambda>p. p\<lparr>lastEntry := prev e\<rparr>) s);
     e \<leftarrow> rd s cur;
     wrp (prev e) (\<lambda>x. x\<lparr>nxt := nxt e\<rparr>) s
   }"

definition move_relink :: "addr \<Rightarrow> gstate \<Rightarrow> gstate option" where
  "move_relink cur s = do {
     s \<leftarrow> wr cur (\<lambda>x. x\<lparr>prev := None\<rparr>) s;
     p \<leftarrow> singleton s;
     s \<leftarrow> wrp (firstEntry p) (\<lambda>x. x\<lparr>prev := Some cur\<rparr>) s;
     s \<leftarrow> wr cur (\<lambda>x. x\<lparr>nxt := firstEntry p\<rparr>) s;
     wrpool (\<lambda>p. p\<lparr>firstEntry := Some cur\<rparr>) s
   }"

text \<open>
  The first entry of the list \<open>as\<close> that matches, and the entry that \<open>_RefDataset\<close>
  returns: the first match, or else the slot of a miss.
\<close>

definition first_match ::
  "(addr \<Rightarrow> GDALProxyPoolCacheEntry option) \<Rightarrow> string \<Rightarrow> bool \<Rightarrow> int \<Rightarrow> addr list \<Rightarrow> addr option" where
  "first_match h fn bSh pid as =
     find (\<lambda>a. case h a of None \<Rightarrow> False | Some e \<Rightarrow> entry_matches fn bSh pid e) as"

definition slot_of_ref :: "gstate \<Rightarrow> addr list \<Rightarrow> string \<Rightarrow> bool \<Rightarrow> addr option" where
  "slot_of_ref s as fn bSh =
     (case first_match (heap s) fn bSh (curPID s) as of
        Some a \<Rightarrow> Some a
      | None \<Rightarrow> slot_of_miss s as)"

subsection \<open>Scenarios\<close>

text \<open>
  A process configured with a pool of two entries, in a release build and in a debug
  build, and the state after the first proxy dataset has been constructed by thread 1.
\<close>

definition ev_test :: env where
  "ev_test = plain_env test_opener (pool_size_config ''2'') False"

definition ev_test_debug :: env where
  "ev_test_debug = plain_env test_opener (pool_size_config ''2'') True"

definition state_fresh :: gstate where
  "state_fresh = Ref ev_test (init_state 1)"

definition ref_shared :: "string \<Rightarrow> gstate \<Rightarrow> (addr option \<times> gstate) option" where
  "ref_shared fn s = RefDataset ev_test fn GA_ReadOnly None True s"

text \<open>\<open>A\<close> and \<open>B\<close> are referenced by thread 1 and stay so.\<close>

definition state_two_pinned :: "gstate option" where
  "state_two_pinned = do {
     (a, s) \<leftarrow> ref_shared ''A'' state_fresh;
     (b, s) \<leftarrow> ref_shared ''B'' s;
     Some s
   }"

text \<open>A shared proxy dataset on the file \<open>d\<close> with no overlay.\<close>

definition proxy_on :: "env \<Rightarrow> string \<Rightarrow> gstate \<Rightarrow> GDALProxyPoolDataset \<times> gstate" where
  "proxy_on ev d s = GDALProxyPoolDataset_new ev (Some []) d 10 10 GA_ReadOnly True None None s"

definition proxy_C :: GDALProxyPoolDataset where
  "proxy_C = fst (proxy_on ev_test ''C'' (init_state 1))"

text \<open>
  Proxy datasets on \<open>A\<close>, \<open>B\<close> and \<open>C\<close> are constructed; the underlying dataset of \<open>A\<close>
  is referenced and stays so, the one of \<open>B\<close> is referenced and released.
\<close>

definition head_victim_state :: "gstate option" where
  "head_victim_state = do {
     let (pA, s) = proxy_on ev_test ''A'' (init_state 1);
     let (pB, s) = proxy_on ev_test ''B'' s;
     let (pC, s) = proxy_on ev_test ''C'' s;
     (dA, pA, s) \<leftarrow> RefUnderlyingDataset ev_test pA s;
     (dB, pB, s) \<leftarrow> RefUnderlyingDataset ev_test pB s;
     UnrefUnderlyingDataset ev_test pB dB s
   }"

text \<open>A proxy dataset constructed with a projection and a geotransform.\<close>

definition proxy_with_overlays :: "GDALProxyPoolDataset \<times> gstate" where
  "proxy_with_overlays =
     GDALProxyPoolDataset_new ev_test (Some []) ''A'' 10 10 GA_ReadOnly True (Some ''WKT'')
       (Some [1, 2, 3, 4, 5, 6]) (init_state 1)"

text \<open>\<open>A\<close> then \<open>B\<close> are referenced and released by thread 1.\<close>

definition state_two_released :: "gstate option" where
  "state_two_released = do {
     (a, s) \<leftarrow> ref_shared ''A'' state_fresh;
     s \<leftarrow> UnrefDataset a s;
     (b, s) \<leftarrow> ref_shared ''B'' s;
     UnrefDataset b s
   }"




text \<open>A proxy dataset of thread 1 on a file that the driver of the tests cannot open.\<close>

definition proxy_missing :: GDALProxyPoolDataset where
  "proxy_missing = fst (proxy_on ev_test ''missing'' (init_state 1))"

text \<open>
  With that driver, thread 1 constructs a shared proxy dataset on \<open>A\<close>, references its
  underlying dataset and releases it: the pool holds the open dataset of \<open>A\<close>, which
  owns a proxy dataset on \<open>B\<close>.
\<close>

definition ev_inner :: env where
  "ev_inner = inner_env test_opener (pool_size_config ''2'') False ''B''"

definition state_inner_released :: "(GDALProxyPoolDataset \<times> gstate) option" where
  "state_inner_released = do {
     let (pA, s) = proxy_on ev_inner ''A'' (init_state 1);
     (d, pA, s) \<leftarrow> RefUnderlyingDataset ev_inner pA s;
     s \<leftarrow> UnrefUnderlyingDataset ev_inner pA d s;
     Some (pA, s)
   }"

text \<open>
  The state in which \<open>Unref\<close> runs the destructor of the pool (lines 404-407): \<open>refCount\<close>
  has just reached 0.
\<close>

definition refCount_reaches_0 :: "gstate \<Rightarrow> gstate" where
  "refCount_reaches_0 s = s\<lparr>singleton := map_option (\<lambda>p. p\<lparr>poolRefCount := 0\<rparr>) (singleton s)\<rparr>"

section \<open>Properties\<close>

subsection \<open>Basic facts\<close>

lemma plain_env_simps [simp]:
  "openEx (plain_env opener cfg dbg) fn flags opts s = (opener fn, s)"
  "closeDS (plain_env opener cfg dbg) d s = s"
  "configOptions (plain_env opener cfg dbg) = cfg"
  "debug (plain_env opener cfg dbg) = dbg"
  by (simp_all add: plain_env_def)

subsection \<open>The size of the pool\<close>

lemma atoi_fits_int:
  "- (2 ^ 31) \<le> atoi_value str \<Longrightarrow> atoi_value str < 2 ^ 31 \<Longrightarrow> atoi str = atoi_value str"
  by (simp add: atoi_def strtol_def int_of_long_def)

text \<open>
  C2 (as the code has it). When \<open>Ref\<close> finds no singleton, the pool it creates has as
  \<open>maxSize\<close> the \<open>atoi\<close> of the option \<open>GDAL_MAX_DATASET_POOL_SIZE\<close> if that \<open>int\<close> lies
  in \<open>[2, 1000]\<close>, and 100 otherwise; an unset option gives 100. So a configured number
  that fits an \<open>int\<close> is taken as it is when it lies in \<open>[2, 1000]\<close> and gives 100 when it
  lies outside. When a singleton exists, \<open>Ref\<close> leaves its \<open>maxSize\<close> alone, whatever the
  configuration says.
\<close>

theorem Ref_maxSize_from_config:
  "map_option maxSize (singleton (Ref ev s)) =
     (case singleton s of
        None \<Rightarrow>
          Some (let v = atoi (CPLGetConfigOption ev ''GDAL_MAX_DATASET_POOL_SIZE'' ''100'')
                in if 2 \<le> v \<and> v \<le> 1000 then v else 100)
      | Some p \<Rightarrow> Some (maxSize p)) \<and>
   (singleton s = None \<and> configOptions ev ''GDAL_MAX_DATASET_POOL_SIZE'' = None \<longrightarrow>
      map_option maxSize (singleton (Ref ev s)) = Some 100) \<and>
   (singleton s = None \<and> configOptions ev ''GDAL_MAX_DATASET_POOL_SIZE'' = Some str \<and>
    - (2 ^ 31) \<le> atoi_value str \<and> atoi_value str < 2 ^ 31 \<longrightarrow>
      map_option maxSize (singleton (Ref ev s)) =
        Some (if 2 \<le> atoi_value str \<and> atoi_value str \<le> 1000 then atoi_value str else 100))"
proof -
  have "atoi ''100'' = 100"
    by (simp add: atoi_def strtol_def int_of_long_def isdigit_def isspace_def)
  then show ?thesis
    by (auto simp: Ref_def Let_def GDALDatasetPool_new_def CPLGetConfigOption_def atoi_fits_int
        split: option.splits)
qed

theorem Ref_maxSize_witness:
  "map_option maxSize
     (singleton (Ref (plain_env test_opener no_config False) (init_state 1))) = Some 100 \<and>
   map_option maxSize
     (singleton (Ref (plain_env test_opener (pool_size_config ''250'') False) (init_state 1))) =
     Some 250 \<and>
   map_option maxSize
     (singleton (Ref (plain_env test_opener (pool_size_config ''-7'') False) (init_state 1))) =
     Some 100"
  using Ref_maxSize_from_config [of "plain_env test_opener no_config False" "init_state 1"]
        Ref_maxSize_from_config
          [of "plain_env test_opener (pool_size_config ''250'') False" "init_state 1" "''250''"]
        Ref_maxSize_from_config
          [of "plain_env test_opener (pool_size_config ''-7'') False" "init_state 1" "''-7''"]
  by (simp add: init_state_def no_config_def pool_size_config_def isdigit_def isspace_def)

text \<open>
  A configured 1 does not give 2, and a configured 5000 does not give 1000: both give 100.
  And the option is read again when a pool is created after the first one has been
  destroyed: the second pool has the size configured then.
\<close>

theorem Ref_maxSize_not_clamped:
  "map_option maxSize
     (singleton (Ref (plain_env test_opener (pool_size_config ''1'') False) (init_state 1))) =
     Some 100 \<and>
   Some (100::int) \<noteq> Some (spec_clamped_maxSize (atoi ''1'')) \<and>
   map_option maxSize
     (singleton (Ref (plain_env test_opener (pool_size_config ''5000'') False) (init_state 1))) =
     Some 100 \<and>
   Some (100::int) \<noteq> Some (spec_clamped_maxSize (atoi ''5000'')) \<and>
   map_option maxSize (singleton state_fresh) = Some 2 \<and>
   map_option
     (\<lambda>s. map_option maxSize
            (singleton (Ref (plain_env test_opener (pool_size_config ''7'') False) s)))
     (Unref ev_test state_fresh) = Some (Some 7)"
  by code_simp

text \<open>
  A numeral beyond \<open>int\<close> is an \<open>int\<close> before it is tested: 4294967298 arrives as 2.
\<close>

lemma Ref_maxSize_beyond_int:
  "map_option maxSize
     (singleton (Ref (plain_env test_opener (pool_size_config ''4294967298'') False)
        (init_state 1))) = Some 2"
  by code_simp

subsection \<open>The static entry points\<close>

text \<open>
  C10. \<open>RefDataset\<close> and \<open>CloseDataset\<close> call through the singleton pointer without a
  test: in a state with no singleton neither has a defined result.
\<close>

theorem static_entry_points_need_singleton:
  "singleton s = None \<Longrightarrow>
     RefDataset ev fn acc opts bSh s = None \<and> CloseDataset ev fn acc s = None"
  by (simp add: RefDataset_def CloseDataset_def)

theorem static_entry_points_need_singleton_witness:
  "RefDataset (plain_env test_opener no_config False) ''A'' GA_ReadOnly None True (init_state 1) = None \<and>
   CloseDataset (plain_env test_opener no_config False) ''A'' GA_ReadOnly (init_state 1) = None"
  using static_entry_points_need_singleton [of "init_state 1"]
  by (simp add: init_state_def)

subsection \<open>Steps on the store\<close>

lemma wr_eq_Some:
  "(wr a f s = Some s') = (\<exists>e. heap s a = Some e \<and> s' = s\<lparr>heap := (heap s)(a \<mapsto> f e)\<rparr>)"
  by (auto simp: wr_def split: option.splits)

lemma wrp_simps [simp]: "wrp None f s = None" "wrp (Some a) f s = wr a f s"
  by (simp_all add: wrp_def)

lemma wrpool_eq_Some:
  "(wrpool f s = Some s') = (\<exists>p. singleton s = Some p \<and> s' = s\<lparr>singleton := Some (f p)\<rparr>)"
  by (auto simp: wrpool_def split: option.splits)

lemma rd_simp [simp]: "rd s a = heap s a"
  by (simp add: rd_def)

lemma rdp_simps [simp]: "rdp s None = None" "rdp s (Some a) = heap s a"
  by (simp_all add: rdp_def)

lemma postD: "post m Q \<Longrightarrow> m = Some y \<Longrightarrow> Q y"
  by (simp add: post_def)

lemma post_None [simp]: "post None Q"
  by (simp add: post_def)

lemma post_Some [simp]: "post (Some x) Q = Q x"
  by (simp add: post_def)

lemma post_bind: "post m (\<lambda>x. post (f x) Q) \<Longrightarrow> post (Option.bind m f) Q"
  by (cases m) (simp_all add: post_def)

lemma post_case_option:
  "(x = None \<Longrightarrow> post a Q) \<Longrightarrow> (\<And>y. x = Some y \<Longrightarrow> post (b y) Q)
     \<Longrightarrow> post (case x of None \<Rightarrow> a | Some y \<Rightarrow> b y) Q"
  by (cases x) simp_all

lemma post_if:
  "(c \<Longrightarrow> post a Q) \<Longrightarrow> (\<not> c \<Longrightarrow> post b Q) \<Longrightarrow> post (if c then a else b) Q"
  by simp

lemma post_read: "(\<And>e. h = Some e \<Longrightarrow> Q e) \<Longrightarrow> post h Q"
  by (cases h) simp_all

lemma post_wr:
  "(\<And>e. heap s a = Some e \<Longrightarrow> Q (s\<lparr>heap := (heap s)(a \<mapsto> f e)\<rparr>)) \<Longrightarrow> post (wr a f s) Q"
  by (simp add: wr_def post_def split: option.splits)

lemma post_wrp:
  "(\<And>a e. q = Some a \<Longrightarrow> heap s a = Some e \<Longrightarrow> Q (s\<lparr>heap := (heap s)(a \<mapsto> f e)\<rparr>))
     \<Longrightarrow> post (wrp q f s) Q"
  by (cases q) (simp_all add: post_wr)

lemma post_wrpool:
  "(\<And>p. singleton s = Some p \<Longrightarrow> Q (s\<lparr>singleton := Some (f p)\<rparr>)) \<Longrightarrow> post (wrpool f s) Q"
  by (simp add: wrpool_def post_def split: option.splits)

lemma links_only_refl [simp]: "links_only s s"
  by (simp add: links_only_def)

lemma links_only_trans: "links_only s s1 \<Longrightarrow> links_only s1 s2 \<Longrightarrow> links_only s s2"
  by (simp add: links_only_def)

lemma wr_prev_links_only: "wr a (\<lambda>x. x\<lparr>prev := v\<rparr>) s = Some s' \<Longrightarrow> links_only s s'"
  by (auto simp: wr_eq_Some links_only_def payload_def)

lemma wr_nxt_links_only: "wr a (\<lambda>x. x\<lparr>nxt := v\<rparr>) s = Some s' \<Longrightarrow> links_only s s'"
  by (auto simp: wr_eq_Some links_only_def payload_def)

lemma wrp_prev_links_only: "wrp q (\<lambda>x. x\<lparr>prev := v\<rparr>) s = Some s' \<Longrightarrow> links_only s s'"
  by (cases q) (auto dest: wr_prev_links_only)

lemma wrp_nxt_links_only: "wrp q (\<lambda>x. x\<lparr>nxt := v\<rparr>) s = Some s' \<Longrightarrow> links_only s s'"
  by (cases q) (auto dest: wr_nxt_links_only)

lemma wrpool_first_links_only: "wrpool (\<lambda>p. p\<lparr>firstEntry := v\<rparr>) s = Some s' \<Longrightarrow> links_only s s'"
  by (auto simp: wrpool_eq_Some links_only_def pool_counts_def)

lemma wrpool_last_links_only: "wrpool (\<lambda>p. p\<lparr>lastEntry := v\<rparr>) s = Some s' \<Longrightarrow> links_only s s'"
  by (auto simp: wrpool_eq_Some links_only_def pool_counts_def)

lemma lo_step:
  assumes "\<And>s'. m = Some s' \<Longrightarrow> links_only s s'"
    and "links_only s0 s" and "\<And>s'. links_only s0 s' \<Longrightarrow> Q s'"
  shows "post m Q"
proof (cases m)
  case None
  then show ?thesis by simp
next
  case (Some s')
  with assms(1) have "links_only s s'" by simp
  with assms(2) have "links_only s0 s'" by (rule links_only_trans)
  with assms(3) Some show ?thesis by simp
qed

lemma lo_wr_prev:
  assumes "links_only s0 s" and "\<And>s'. links_only s0 s' \<Longrightarrow> Q s'"
  shows "post (wr a (\<lambda>x. x\<lparr>prev := v\<rparr>) s) Q"
  by (rule lo_step [OF wr_prev_links_only assms])

lemma lo_wr_nxt:
  assumes "links_only s0 s" and "\<And>s'. links_only s0 s' \<Longrightarrow> Q s'"
  shows "post (wr a (\<lambda>x. x\<lparr>nxt := v\<rparr>) s) Q"
  by (rule lo_step [OF wr_nxt_links_only assms])

lemma lo_wrp_prev:
  assumes "links_only s0 s" and "\<And>s'. links_only s0 s' \<Longrightarrow> Q s'"
  shows "post (wrp q (\<lambda>x. x\<lparr>prev := v\<rparr>) s) Q"
  by (rule lo_step [OF wrp_prev_links_only assms])

lemma lo_wrp_nxt:
  assumes "links_only s0 s" and "\<And>s'. links_only s0 s' \<Longrightarrow> Q s'"
  shows "post (wrp q (\<lambda>x. x\<lparr>nxt := v\<rparr>) s) Q"
  by (rule lo_step [OF wrp_nxt_links_only assms])

lemma lo_wrpool_first:
  assumes "links_only s0 s" and "\<And>s'. links_only s0 s' \<Longrightarrow> Q s'"
  shows "post (wrpool (\<lambda>p. p\<lparr>firstEntry := v\<rparr>) s) Q"
  by (rule lo_step [OF wrpool_first_links_only assms])

lemma lo_wrpool_last:
  assumes "links_only s0 s" and "\<And>s'. links_only s0 s' \<Longrightarrow> Q s'"
  shows "post (wrpool (\<lambda>p. p\<lparr>lastEntry := v\<rparr>) s) Q"
  by (rule lo_step [OF wrpool_last_links_only assms])

lemmas lo_steps = lo_wr_prev lo_wr_nxt lo_wrp_prev lo_wrp_nxt lo_wrpool_first lo_wrpool_last

lemma move_to_begin_links_only':
  "links_only s0 s \<Longrightarrow> post (move_to_begin cur s) (links_only s0)"
  unfolding move_to_begin_def rd_def
  by (erule lo_steps | rule post_bind post_case_option | rule post_read | assumption)+

lemma move_to_begin_links_only: "move_to_begin cur s = Some s' \<Longrightarrow> links_only s s'"
  using move_to_begin_links_only' [of s s cur] by (simp add: post_def)

lemma move_to_begin_first:
  assumes "move_to_begin cur s = Some s'"
  shows "map_option firstEntry (singleton s') = Some (Some cur)"
  using assms
  by (auto simp: move_to_begin_def bind_eq_Some_conv wrpool_eq_Some)

lemma RefDataset_scan_found:
  assumes "RefDataset_scan h fn bSh pid cur lz = Some r"
  shows "\<forall>a. fst r = Some a \<longrightarrow> (\<exists>e. h a = Some e \<and> entry_matches fn bSh pid e)"
  by (rule RefDataset_scan.raw_induct
        [where P = "\<lambda>h fn bSh pid cur lz r.
                      \<forall>a. fst r = Some a \<longrightarrow> (\<exists>e. h a = Some e \<and> entry_matches fn bSh pid e)",
         OF _ assms])
     (auto simp: entry_matches_def split: option.splits if_splits)

lemmas vcg_rules = post_bind post_wr post_wrp post_wrpool post_case_option post_if

lemma GDAL_plain [simp]:
  "GDALOpenEx (plain_env opener cfg dbg) fn flags opts s =
     (opener fn, s\<lparr>trace := trace s @ [EvOpen fn flags opts (curPID s) (disableCount s)]\<rparr>)"
  "GDALClose (plain_env opener cfg dbg) d s =
     s\<lparr>trace := trace s @ [EvClose d (curPID s) (disableCount s)]\<rparr>"
  by (simp_all add: GDALOpenEx_def GDALClose_def)

lemma PID_simps [simp]:
  "GDALGetResponsiblePIDForCurrentThread s = curPID s"
  "GDALSetResponsiblePIDForCurrentThread pid s = s\<lparr>curPID := pid\<rparr>"
  by (simp_all add: GDALGetResponsiblePIDForCurrentThread_def GDALSetResponsiblePIDForCurrentThread_def)

lemma evict_post:
  "post (evict (plain_env opener cfg dbg) v pid0 s)
     (\<lambda>s'. map_option firstEntry (singleton s') = Some (Some v) \<and>
           (curPID s = pid0 \<longrightarrow> curPID s' = pid0) \<and> heap s' v \<noteq> None)"
  unfolding evict_def evict_close_def evict_unlink_def evict_relink_def Let_def
  apply (simp only: GDAL_plain PID_simps rd_def)
  by (rule vcg_rules | simp only: post_Some post_None | rule post_read | (auto; fail))+

lemma prepend_post:
  "post (prepend s)
     (\<lambda>r. map_option firstEntry (singleton (snd r)) = Some (Some (fst r)) \<and>
           curPID (snd r) = curPID s \<and> heap (snd r) (fst r) \<noteq> None)"
  unfolding prepend_def Let_def CPLMalloc_entry_def
  apply (simp only: split_def fst_conv snd_conv)
  by (rule vcg_rules | simp only: post_Some post_None | rule post_read | (auto; fail))+

lemma open_entry_post:
  "post (open_entry (plain_env opener cfg dbg) cur fn acc opts pid0 s)
     (\<lambda>r. fst r = Some cur \<and>
          (\<exists>e. heap (snd r) cur = Some e \<and> pszFileName e = fn \<and> responsiblePID e = pid0 \<and>
               refCount e = 1 \<and> poDS e = opener fn) \<and>
          map_option firstEntry (singleton (snd r)) = map_option firstEntry (singleton s) \<and>
          curPID (snd r) = curPID s)"
  unfolding open_entry_def Let_def
  apply (simp only: GDAL_plain PID_simps rd_def split_def fst_conv snd_conv)
  by (rule vcg_rules | simp only: post_Some post_None | rule post_read | (auto; fail))+

lemma priv_RefDataset_eq:
  assumes "singleton s = Some p"
    and "RefDataset_scan (heap s) fn bSh (curPID s) (firstEntry p) None = Some (found, lz)"
  shows "priv_RefDataset ev fn acc opts bSh s =
     (case found of
        Some cur \<Rightarrow>
          Option.bind (if Some cur \<noteq> firstEntry p then move_to_begin cur s else Some s)
            (\<lambda>sm. Option.bind (wr cur (\<lambda>x. x\<lparr>refCount := refCount x + 1\<rparr>) sm)
               (\<lambda>s1. Some (Some cur, s1)))
      | None \<Rightarrow>
          if currentSize p = maxSize p then
            (case lz of
               None \<Rightarrow> Some (None, s\<lparr>trace := trace s @ [EvError (maxSize p)]\<rparr>)
             | Some v \<Rightarrow>
                 Option.bind (evict ev v (curPID s) s) (open_entry ev v fn acc opts (curPID s)))
          else Option.bind (prepend s) (\<lambda>(cur, s2). open_entry ev cur fn acc opts (curPID s) s2))"
  using assms by (simp add: priv_RefDataset_def Let_def)

lemma priv_RefDataset_SomeD:
  assumes "priv_RefDataset ev fn acc opts bSh s = Some x"
  shows "\<exists>p found lz. singleton s = Some p \<and>
           RefDataset_scan (heap s) fn bSh (curPID s) (firstEntry p) None = Some (found, lz)"
  using assms by (auto simp: priv_RefDataset_def Let_def bind_eq_Some_conv)

lemma priv_RefDataset_cases:
  assumes "priv_RefDataset ev fn acc opts bSh s = Some (r, s1)"
  obtains
    (hit) p cur lz sm where
      "singleton s = Some p"
      "RefDataset_scan (heap s) fn bSh (curPID s) (firstEntry p) None = Some (Some cur, lz)"
      "(if Some cur \<noteq> firstEntry p then move_to_begin cur s else Some s) = Some sm"
      "wr cur (\<lambda>x. x\<lparr>refCount := refCount x + 1\<rparr>) sm = Some s1" "r = Some cur"
  | (full) p where
      "singleton s = Some p"
      "RefDataset_scan (heap s) fn bSh (curPID s) (firstEntry p) None = Some (None, None)"
      "currentSize p = maxSize p" "r = None" "s1 = s\<lparr>trace := trace s @ [EvError (maxSize p)]\<rparr>"
  | (evict) p v s2 where
      "singleton s = Some p"
      "RefDataset_scan (heap s) fn bSh (curPID s) (firstEntry p) None = Some (None, Some v)"
      "currentSize p = maxSize p" "evict ev v (curPID s) s = Some s2"
      "open_entry ev v fn acc opts (curPID s) s2 = Some (r, s1)"
  | (prepend) p lz cur s2 where
      "singleton s = Some p"
      "RefDataset_scan (heap s) fn bSh (curPID s) (firstEntry p) None = Some (None, lz)"
      "currentSize p \<noteq> maxSize p" "prepend s = Some (cur, s2)"
      "open_entry ev cur fn acc opts (curPID s) s2 = Some (r, s1)"
proof -
  from priv_RefDataset_SomeD [OF assms] obtain p found lz where
    p: "singleton s = Some p"
    and sc: "RefDataset_scan (heap s) fn bSh (curPID s) (firstEntry p) None = Some (found, lz)"
    by blast
  note eq = assms [unfolded priv_RefDataset_eq [OF p sc]]
  show thesis
  proof (cases found)
    case (Some cur)
    with eq obtain sm where
      "(if Some cur \<noteq> firstEntry p then move_to_begin cur s else Some s) = Some sm"
      "wr cur (\<lambda>x. x\<lparr>refCount := refCount x + 1\<rparr>) sm = Some s1" "r = Some cur"
      by (auto simp: bind_eq_Some_conv)
    with p sc Some show thesis by (intro hit) auto
  next
    case None
    note found = this
    show thesis
    proof (cases "currentSize p = maxSize p")
      case True
      show thesis
      proof (cases lz)
        case None
        with eq found True p sc show thesis by (intro full) auto
      next
        case (Some v)
        with eq found True obtain s2 where
          "evict ev v (curPID s) s = Some s2"
          "open_entry ev v fn acc opts (curPID s) s2 = Some (r, s1)"
          by (auto simp: bind_eq_Some_conv)
        with p sc found True Some show thesis by (intro evict) auto
      qed
    next
      case False
      with eq found obtain cur s2 where
        "prepend s = Some (cur, s2)"
        "open_entry ev cur fn acc opts (curPID s) s2 = Some (r, s1)"
        by (auto simp: bind_eq_Some_conv)
      with p sc found False show thesis by (intro prepend) auto
    qed
  qed
qed

lemma priv_RefDataset_first:
  assumes "priv_RefDataset (plain_env opener cfg dbg) fn acc opts bSh s = Some (Some a, s1)"
  shows "\<exists>e1. heap s1 a = Some e1 \<and> pszFileName e1 = fn \<and>
              (bSh \<longrightarrow> responsiblePID e1 = curPID s) \<and>
              refCount e1 = hit_refCount s fn bSh + 1 \<and>
              map_option firstEntry (singleton s1) = Some (Some a) \<and> curPID s1 = curPID s"
  using assms
proof (cases rule: priv_RefDataset_cases)
  case (hit p cur lz sm)
  from RefDataset_scan_found [OF hit(2)] obtain e where
    e: "heap s cur = Some e" "entry_matches fn bSh (curPID s) e" by auto
  have lo: "links_only s sm"
    using hit(3) by (cases "Some cur = firstEntry p") (auto dest: move_to_begin_links_only)
  have first: "map_option firstEntry (singleton sm) = Some (Some cur)"
    using hit(1,3) by (cases "Some cur = firstEntry p") (auto dest: move_to_begin_first)
  from lo e(1) obtain e' where e': "heap sm cur = Some e'" "payload e' = payload e"
    by (auto simp: links_only_def dest!: spec [of _ cur])
  have hr: "hit_refCount s fn bSh = refCount e"
    by (simp add: hit_refCount_def hit(1,2) e(1))
  show ?thesis
    using hit(4,5) e' e(2) first lo hr
    by (auto simp: wr_eq_Some payload_def entry_matches_def links_only_def)
next
  case (full p)
  then show ?thesis by simp
next
  case (evict p v s2)
  have hr: "hit_refCount s fn bSh = 0"
    by (simp add: hit_refCount_def evict(1,2))
  from postD [OF evict_post evict(4)]
  have s2: "map_option firstEntry (singleton s2) = Some (Some v)" "curPID s2 = curPID s"
    by auto
  from postD [OF open_entry_post evict(5)] s2 hr
  show ?thesis by auto
next
  case (prepend p lz cur s2)
  have hr: "hit_refCount s fn bSh = 0"
    by (simp add: hit_refCount_def prepend(1,2))
  from postD [OF prepend_post prepend(4)]
  have s2: "map_option firstEntry (singleton s2) = Some (Some cur)" "curPID s2 = curPID s"
    by auto
  from postD [OF open_entry_post prepend(5)] s2 hr
  show ?thesis by auto
qed

lemma RefDataset_scan_head:
  "h a = Some e \<Longrightarrow> entry_matches fn bSh pid e \<Longrightarrow>
     RefDataset_scan h fn bSh pid (Some a) lz = Some (Some a, lz)"
  by (subst RefDataset_scan.simps) (simp add: entry_matches_def)


subsection \<open>A shared reference repeated\<close>

text \<open>
  If \<open>RefDataset\<close> with \<open>bShared\<close> set returns an entry, the same call repeated at once
  by the same thread hits that entry, now first in the list, and counts it once more.
\<close>

lemma RefDataset_shared_again:
  assumes "RefDataset (plain_env opener cfg dbg) fn acc opts True s = Some (Some a, s1)"
  shows "\<exists>e1. heap s1 a = Some e1 \<and>
           refCount e1 = hit_refCount s fn True + 1 \<and>
           map_option firstEntry (singleton s1) = Some (Some a) \<and>
           RefDataset (plain_env opener cfg dbg) fn acc opts True s1 =
             Some (Some a, s1\<lparr>heap := (heap s1)(a \<mapsto> e1\<lparr>refCount := hit_refCount s fn True + 2\<rparr>)\<rparr>)"
proof -
  from assms have "priv_RefDataset (plain_env opener cfg dbg) fn acc opts True s = Some (Some a, s1)"
    by (simp add: RefDataset_def split: option.splits)
  from priv_RefDataset_first [OF this] obtain e1 p1 where
    e1: "heap s1 a = Some e1" "pszFileName e1 = fn" "responsiblePID e1 = curPID s"
      "refCount e1 = hit_refCount s fn True + 1" "curPID s1 = curPID s"
    and p1: "singleton s1 = Some p1" "firstEntry p1 = Some a"
    by auto
  have m: "entry_matches fn True (curPID s1) e1"
    using e1 by (simp add: entry_matches_def)
  have "RefDataset (plain_env opener cfg dbg) fn acc opts True s1 =
          Some (Some a, s1\<lparr>heap := (heap s1)(a \<mapsto> e1\<lparr>refCount := refCount e1 + 1\<rparr>)\<rparr>)"
    by (simp add: RefDataset_def priv_RefDataset_def p1 RefDataset_scan_head [of "heap s1", OF e1(1) m]
        wr_def e1(1))
  with e1 p1 show ?thesis by (simp add: add.commute)
qed

subsection \<open>The suppressed reference count\<close>

text \<open>
  While \<open>refCountOfDisableRefCount\<close> is not 0, \<open>Ref\<close> and \<open>Unref\<close> change nothing.
\<close>

lemma Ref_suppressed:
  "singleton s = Some p \<Longrightarrow> refCountOfDisableRefCount p \<noteq> 0 \<Longrightarrow> Ref ev s = s"
  by (simp add: Ref_def)

lemma Unref_suppressed:
  "singleton s = Some p \<Longrightarrow> refCountOfDisableRefCount p \<noteq> 0 \<Longrightarrow> Unref ev s = Some s"
  by (simp add: Unref_def)

text \<open>
  The open at the end of \<open>_RefDataset\<close>, the close of an eviction and the close of
  \<open>_CloseDataset\<close> raise the counter around the call of the driver: a dataset that
  constructs a proxy dataset when it is opened and destroys it when it is closed leaves
  the pool as a dataset does that knows nothing of the pool.
\<close>

lemma inner_env_simps [simp]:
  "configOptions (inner_env opener cfg dbg inner) = cfg"
  "debug (inner_env opener cfg dbg inner) = dbg"
  by (simp_all add: inner_env_def)

lemma inner_openEx_suppressed:
  assumes "singleton s = Some p" and "refCountOfDisableRefCount p \<noteq> 0"
  shows "openEx (inner_env opener cfg dbg inner) fn flags opts s = (opener fn, s)"
  using assms
  by (simp add: inner_env_def inner_proxy_def GDALProxyPoolDataset_new_def Ref_suppressed Let_def
      split: option.splits)

lemma inner_closeDS_suppressed:
  assumes "singleton s = Some p" and "refCountOfDisableRefCount p \<noteq> 0"
  shows "closeDS (inner_env opener cfg dbg inner) d s = s"
  using assms
  by (simp add: inner_env_def inner_proxy_def GDALProxyPoolDataset_new_def
      GDALProxyPoolDataset_delete_def Ref_suppressed Unref_suppressed Let_def)

lemma GDALOpenEx_inner:
  assumes "singleton s = Some p" and "refCountOfDisableRefCount p \<noteq> 0"
  shows "GDALOpenEx (inner_env opener cfg dbg inner) fn flags opts s =
         GDALOpenEx (plain_env opener cfg dbg) fn flags opts s"
  using assms by (simp add: GDALOpenEx_def inner_openEx_suppressed [where p = p])

lemma GDALClose_inner:
  assumes "singleton s = Some p" and "refCountOfDisableRefCount p \<noteq> 0"
  shows "GDALClose (inner_env opener cfg dbg inner) d s =
         GDALClose (plain_env opener cfg dbg) d s"
  using assms by (simp add: GDALClose_def inner_closeDS_suppressed [where p = p])

lemma open_entry_inner:
  assumes "singleton s = Some p" and "0 \<le> refCountOfDisableRefCount p"
  shows "open_entry (inner_env opener cfg dbg inner) cur fn acc opts pid s =
         open_entry (plain_env opener cfg dbg) cur fn acc opts pid s"
  using assms
  by (auto simp: open_entry_def Let_def wr_def wrpool_def GDALOpenEx_inner split: option.splits
      intro!: Option.bind_cong)

lemma evict_close_inner:
  assumes "singleton s = Some p" and "0 \<le> refCountOfDisableRefCount p"
  shows "evict_close (inner_env opener cfg dbg inner) v pid s =
         evict_close (plain_env opener cfg dbg) v pid s"
  using assms
  by (auto simp: evict_close_def Let_def wr_def wrpool_def GDALClose_inner split: option.splits
      intro!: Option.bind_cong)

lemma priv_CloseDataset_inner:
  assumes "singleton s = Some p" and "0 \<le> refCountOfDisableRefCount p"
  shows "priv_CloseDataset (inner_env opener cfg dbg inner) fn acc s =
         priv_CloseDataset (plain_env opener cfg dbg) fn acc s"
  using assms
  by (auto simp: priv_CloseDataset_def Let_def wr_def wrpool_def GDALClose_inner
      split: option.splits intro!: Option.bind_cong)

text \<open>
  The last \<open>Unref\<close> hands the pool to its destructor with \<open>refCount\<close> at 0 and the
  counter at 0, and forgets the singleton afterwards.
\<close>

lemma Unref_last:
  assumes "singleton s = Some p" and "refCountOfDisableRefCount p = 0" and "poolRefCount p = 1"
  shows "Unref ev s =
         map_option (\<lambda>s2. s2\<lparr>singleton := None\<rparr>)
           (GDALDatasetPool_delete ev (refCount_reaches_0 s))"
proof -
  have "refCount_reaches_0 s = s\<lparr>singleton := Some (p\<lparr>poolRefCount := poolRefCount p - 1\<rparr>)\<rparr>"
    using assms by (simp add: refCount_reaches_0_def)
  then show ?thesis
    using assms
    by (cases "GDALDatasetPool_delete ev (refCount_reaches_0 s)") (simp_all add: Unref_def)
qed

text \<open>
  C6 (the code at a reachable state). The destructor of the pool closes its datasets with the counter at 0. In the state
  above the pool's \<open>refCount\<close> is 1, as the proxy dataset on \<open>B\<close> was constructed during
  the open of \<open>A\<close>. \<open>CloseDataset\<close> would close the dataset of \<open>A\<close> with the counter at 1
  and leave \<open>refCount\<close> at 1. When instead the proxy dataset on \<open>A\<close> is destroyed,
  \<open>Unref\<close> takes \<open>refCount\<close> to 0 and runs the destructor of the pool, which closes the
  dataset of \<open>A\<close> with the counter at 0: the \<open>Unref\<close> of the proxy dataset on \<open>B\<close> is
  not suppressed and takes \<open>refCount\<close> from 0 to -1.
\<close>

theorem destructor_closes_unsuppressed:
  "case state_inner_released of
     None \<Rightarrow> False
   | Some (pA, s) \<Rightarrow>
       map_option poolRefCount (singleton s) = Some 1 \<and>
       trace s = [EvOpen ''A'' [GDAL_OF_READONLY, GDAL_OF_RASTER, GDAL_OF_VERBOSE_ERROR] None 1 1] \<and>
       map_option (\<lambda>s'. (trace s', map_option poolRefCount (singleton s')))
           (CloseDataset ev_inner ''A'' GA_ReadOnly s) =
         Some (trace s @ [EvClose 10 1 1], Some 1) \<and>
       map_option (\<lambda>s'. (trace s', singleton s')) (GDALProxyPoolDataset_delete ev_inner pA s) =
         Some (trace s @ [EvClose 10 1 0], None) \<and>
       map_option (\<lambda>s'. map_option poolRefCount (singleton s'))
           (GDALDatasetPool_delete ev_inner (refCount_reaches_0 s)) =
         Some (Some (- 1))"
  by code_simp

subsection \<open>The scan of a sound list\<close>

lemma case_option_False_conv:
  "(case x of None \<Rightarrow> False | Some s \<Rightarrow> P s) = (\<exists>s. x = Some s \<and> P s)"
  by (cases x) auto

lemma all_entries_Cons:
  "all_entries s (a # as) P = ((\<exists>e. heap s a = Some e \<and> P e) \<and> all_entries s as P)"
  by (auto simp: all_entries_def split: option.splits)

lemma all_entries_Nil [simp]: "all_entries s [] P"
  by (simp add: all_entries_def)

lemma RefDataset_scan_no_match:
  "dll h pr cur as \<Longrightarrow>
   list_all (\<lambda>a. case h a of None \<Rightarrow> False | Some e \<Rightarrow> \<not> entry_matches fn bSh pid e) as \<Longrightarrow>
     RefDataset_scan h fn bSh pid cur lz = Some (None, last_zero h as lz)"
proof (induction as arbitrary: pr cur lz)
  case Nil
  then show ?case by (subst RefDataset_scan.simps) simp
next
  case (Cons a as)
  from Cons.prems obtain e where e: "cur = Some a" "h a = Some e" "prev e = pr"
    "dll h (Some a) (nxt e) as" "\<not> entry_matches fn bSh pid e"
    by (auto split: option.splits)
  from Cons.prems have rest:
    "list_all (\<lambda>a. case h a of None \<Rightarrow> False | Some e \<Rightarrow> \<not> entry_matches fn bSh pid e) as"
    by simp
  show ?case
    using e Cons.IH [OF e(4) rest]
    by (subst RefDataset_scan.simps) (auto simp: entry_matches_def)
qed

lemma last_zero_all_pinned:
  "list_all (\<lambda>a. case h a of None \<Rightarrow> False | Some e \<Rightarrow> refCount e \<noteq> 0) as \<Longrightarrow>
     last_zero h as lz = lz"
  by (induction as arbitrary: lz) (auto split: option.splits)

subsection \<open>A full pool\<close>

text \<open>
  C4. In a pool whose links are sound and whose size is \<open>maxSize\<close>, when every entry has
  a positive reference count and none matches the request, \<open>RefDataset\<close> returns no
  entry, and the state is the one before but for the diagnostic, which carries
  \<open>maxSize\<close>: no entry is added, removed, closed or moved.
\<close>

theorem RefDataset_pool_exhausted:
  assumes "pool_list s as" and "singleton s = Some p" and "currentSize p = maxSize p"
    and "all_entries s as (\<lambda>e. 0 < refCount e)"
    and "all_entries s as (\<lambda>e. \<not> entry_matches fn bSh (curPID s) e)"
  shows "RefDataset ev fn acc opts bSh s = Some (None, s\<lparr>trace := trace s @ [EvError (maxSize p)]\<rparr>)"
proof -
  from assms(1,2) have d: "dll (heap s) None (firstEntry p) as"
    by (simp add: pool_list_def)
  have pinned: "list_all (\<lambda>a. case heap s a of None \<Rightarrow> False | Some e \<Rightarrow> refCount e \<noteq> 0) as"
    using assms(4) by (auto simp: all_entries_def list_all_iff split: option.splits)
  from RefDataset_scan_no_match [OF d assms(5) [unfolded all_entries_def]]
  have "RefDataset_scan (heap s) fn bSh (curPID s) (firstEntry p) None = Some (None, None)"
    by (simp add: last_zero_all_pinned [OF pinned])
  from priv_RefDataset_eq [OF assms(2) this] assms(2,3) show ?thesis
    by (simp add: RefDataset_def)
qed

theorem RefDataset_pool_exhausted_witness:
  "case state_two_pinned of
     None \<Rightarrow> False
   | Some s \<Rightarrow> RefDataset ev_test ''C'' GA_ReadOnly None True s = Some (None, s\<lparr>trace := trace s @ [EvError 2]\<rparr>)"
proof -
  have "case state_two_pinned of
          None \<Rightarrow> False
        | Some s \<Rightarrow>
            pool_list s [2, 1] \<and>
            singleton s = Some \<lparr>poolRefCount = 1, maxSize = 2, currentSize = 2, firstEntry = Some 2,
                                 lastEntry = Some 1, refCountOfDisableRefCount = 0\<rparr> \<and>
            all_entries s [2, 1] (\<lambda>e. 0 < refCount e) \<and>
            all_entries s [2, 1] (\<lambda>e. \<not> entry_matches ''C'' True (curPID s) e)"
    by code_simp
  then obtain s where s: "state_two_pinned = Some s" "pool_list s [2, 1]"
    "singleton s = Some \<lparr>poolRefCount = 1, maxSize = 2, currentSize = 2, firstEntry = Some 2,
                          lastEntry = Some 1, refCountOfDisableRefCount = 0\<rparr>"
    "all_entries s [2, 1] (\<lambda>e. 0 < refCount e)"
    "all_entries s [2, 1] (\<lambda>e. \<not> entry_matches ''C'' True (curPID s) e)"
    unfolding case_option_False_conv by blast
  have "RefDataset ev_test ''C'' GA_ReadOnly None True s = Some (None, s\<lparr>trace := trace s @ [EvError 2]\<rparr>)"
    using RefDataset_pool_exhausted [OF s(2,3) _ s(4,5), of ev_test GA_ReadOnly None] by simp
  then show ?thesis by (simp add: s(1))
qed


subsection \<open>The victim of an eviction\<close>

text \<open>
  C9 (the code at a reachable state). With a pool of two entries, \<open>A\<close> referenced and
  \<open>B\<close> released, the list is \<open>[B, A]\<close> and sound; a reference of \<open>C\<close> misses and
  evicts \<open>B\<close>, the first entry, whose \<open>prev\<close> is \<open>NULL\<close>. A debug build stops at
  \<open>CPLAssert(0)\<close>; a release build goes on and links the entry to itself.
\<close>

theorem eviction_of_the_first_entry:
  "case head_victim_state of
     None \<Rightarrow> False
   | Some s \<Rightarrow>
       map_option maxSize (singleton s) = Some 2 \<and>
       pool_list s [2, 1] \<and>
       victim_link ''C'' True s = Some (2, None) \<and>
       RefUnderlyingDataset ev_test_debug proxy_C s = None \<and>
       (case RefUnderlyingDataset ev_test proxy_C s of
          None \<Rightarrow> False
        | Some (d, ds, s') \<Rightarrow>
            map_option firstEntry (singleton s') = Some (Some 2) \<and>
            map_option nxt (heap s' 2) = Some (Some 2) \<and>
            map_option prev (heap s' 2) = Some (Some 2) \<and>
            \<not> pool_list s' [2, 1])"
  by code_simp


subsection \<open>The overlays of a proxy dataset\<close>

text \<open>
  C1 (the code at a concrete input). A proxy dataset constructed with the projection
  \<open>WKT\<close> has no projection overlay: reading the projection back opens the underlying
  source and returns what that source says.
\<close>

theorem projection_overlay_dropped:
  "bHasSrcProjection (fst proxy_with_overlays) = False \<and>
   pszProjectionRef (fst proxy_with_overlays) = None \<and>
   map_option fst (GetProjectionRef ev_test (fst proxy_with_overlays) (snd proxy_with_overlays)) =
     Some (Some ''underlying'') \<and>
   map_option (\<lambda>r. trace (snd (snd r)))
       (GetProjectionRef ev_test (fst proxy_with_overlays) (snd proxy_with_overlays)) =
     Some [EvOpen ''A'' [GDAL_OF_READONLY, GDAL_OF_RASTER, GDAL_OF_VERBOSE_ERROR] None 1 1]"
  by code_simp


text \<open>The geotransform overlay is kept and read back without a look at the pool.\<close>

lemma geotransform_overlay_kept:
  "length g = 6 \<Longrightarrow>
     GetGeoTransform ev' (fst (GDALProxyPoolDataset_new ev sn d x y acc sh proj (Some g) s)) s' =
       Some (Some g, fst (GDALProxyPoolDataset_new ev sn d x y acc sh proj (Some g) s), s')"
  by (simp add: GetGeoTransform_def GDALProxyPoolDataset_new_def Let_def)

subsection \<open>Surgery on the list\<close>

lemma dll_dlseg: "dll h pr cur as = dlseg h pr cur as None"
  by (induction as arbitrary: pr cur) (auto split: option.splits)

lemma lastp_simps [simp]:
  "lastp pr [] = pr" "lastp pr (a # as) = lastp (Some a) as" "lastp pr (xs @ [a]) = Some a"
  by (simp_all add: lastp_def)

lemma dlseg_append:
  "dlseg h pr cur (xs @ ys) nx =
     (\<exists>mid. dlseg h pr cur xs mid \<and> dlseg h (lastp pr xs) mid ys nx)"
  by (induction xs arbitrary: pr cur) (auto split: option.splits)

lemma dlseg_upd_notin:
  "a \<notin> set as \<Longrightarrow> dlseg (h(a := x)) pr cur as nx = dlseg h pr cur as nx"
  by (induction as arbitrary: pr cur) (auto split: option.splits)

lemma dlseg_dom: "dlseg h pr cur as nx \<Longrightarrow> a \<in> set as \<Longrightarrow> h a \<noteq> None"
  by (induction as arbitrary: pr cur) (auto split: option.splits)

lemma dlseg_hd: "dlseg h pr cur as nx \<Longrightarrow> as \<noteq> [] \<Longrightarrow> cur = Some (hd as)"
  by (cases as) auto

lemma dlseg_hd_entry:
  "dlseg h pr cur (a # as) nx \<Longrightarrow> \<exists>e. h a = Some e \<and> prev e = pr \<and> dlseg h (Some a) (nxt e) as nx"
  by (auto split: option.splits)

lemma dlseg_last_entry:
  "dlseg h pr cur (xs @ [a]) nx \<Longrightarrow> \<exists>e. h a = Some e \<and> prev e = lastp pr xs \<and> nxt e = nx"
  by (auto simp: dlseg_append split: option.splits)

lemma dlseg_set_last_next:
  "dlseg h pr cur (xs @ [a]) nx \<Longrightarrow> a \<notin> set xs \<Longrightarrow> h a = Some e \<Longrightarrow>
     dlseg (h(a \<mapsto> e\<lparr>nxt := nx'\<rparr>)) pr cur (xs @ [a]) nx'"
  by (auto simp: dlseg_append dlseg_upd_notin split: option.splits)

lemma dlseg_set_first_prev:
  "dlseg h pr cur (a # as) nx \<Longrightarrow> a \<notin> set as \<Longrightarrow> h a = Some e \<Longrightarrow>
     dlseg (h(a \<mapsto> e\<lparr>prev := pr'\<rparr>)) pr' cur (a # as) nx"
  by (auto simp: dlseg_upd_notin split: option.splits)

lemma dlseg_payload_upd:
  "h a = Some e \<Longrightarrow> prev e' = prev e \<Longrightarrow> nxt e' = nxt e \<Longrightarrow>
     dlseg (h(a \<mapsto> e')) pr cur as nx = dlseg h pr cur as nx"
  by (induction as arbitrary: pr cur) (auto split: option.splits)

lemma evict_unlink_links_only': "links_only s0 s \<Longrightarrow> post (evict_unlink ev v s) (links_only s0)"
  unfolding evict_unlink_def rd_def rdp_def
  by (erule lo_steps | rule post_bind post_case_option post_if
      | simp only: post_Some post_None | rule post_read | assumption)+

lemma evict_unlink_links_only: "evict_unlink ev v s = Some s' \<Longrightarrow> links_only s s'"
  using evict_unlink_links_only' [of s s ev v] by (simp add: post_def)

lemma evict_relink_links_only': "links_only s0 s \<Longrightarrow> post (evict_relink v s) (links_only s0)"
  unfolding evict_relink_def
  by (erule lo_steps | rule post_bind post_case_option post_if
      | simp only: post_Some post_None | rule post_read | assumption)+

lemma evict_relink_links_only: "evict_relink v s = Some s' \<Longrightarrow> links_only s s'"
  using evict_relink_links_only' [of s s v] by (simp add: post_def)

lemma dll_middle:
  assumes "dll h pr first (xs @ v # ys)" and "xs \<noteq> []"
  obtains elx ve where
    "h (last xs) = Some elx" "nxt elx = Some v" "h v = Some ve" "prev ve = Some (last xs)"
    "dlseg h pr first xs (Some v)" "dlseg h (Some v) (nxt ve) ys None"
proof -
  from assms(2) obtain xs' lx where xs: "xs = xs' @ [lx]"
    by (cases xs rule: rev_cases) auto
  from assms(1) have seg: "dlseg h pr first xs (Some v)"
    and vseg: "dlseg h (lastp pr xs) (Some v) (v # ys) None"
    by (auto simp: dll_dlseg dlseg_append)
  from vseg xs obtain ve where ve: "h v = Some ve" "prev ve = Some lx" "dlseg h (Some v) (nxt ve) ys None"
    by (auto split: option.splits)
  from seg xs obtain elx where elx: "h lx = Some elx" "nxt elx = Some v"
    by (auto dest: dlseg_last_entry)
  from that [of elx ve] elx ve seg xs show thesis by simp
qed

lemma evict_unlink_sound:
  assumes dll: "dll (heap s) None (firstEntry p) (xs @ v # ys)"
    and dist: "distinct (xs @ v # ys)" and ne: "xs \<noteq> []"
    and p: "singleton s = Some p" and last: "lastEntry p = Some (last (v # ys))"
  shows "\<exists>s'. evict_unlink ev v s = Some s' \<and>
           dll (heap s') None (firstEntry p) (xs @ ys) \<and>
           singleton s' = Some (p\<lparr>lastEntry := Some (last (xs @ ys))\<rparr>) \<and>
           heap s' v = heap s v"
proof -
  from ne obtain xs' lx where xs: "xs = xs' @ [lx]"
    by (cases xs rule: rev_cases) auto
  from dll ne obtain elx ve where
    elx: "heap s lx = Some elx" "nxt elx = Some v"
    and ve: "heap s v = Some ve" "prev ve = Some lx"
    and seg: "dlseg (heap s) None (firstEntry p) xs (Some v)"
    and rest: "dlseg (heap s) (Some v) (nxt ve) ys None"
    by (rule dll_middle) (auto simp: xs)
  from dist xs have neq: "lx \<noteq> v" "v \<noteq> lx" "lx \<notin> set xs'" "lx \<notin> set ys" "v \<notin> set ys" "v \<notin> set xs"
    by auto
  let ?h1 = "(heap s)(lx \<mapsto> elx\<lparr>nxt := nxt ve\<rparr>)"
  have seg1: "dlseg ?h1 None (firstEntry p) xs (nxt ve)"
    using dlseg_set_last_next [OF seg [unfolded xs] neq(3) elx(1)] by (simp add: xs)
  have rest1: "dlseg ?h1 (Some v) (nxt ve) ys None"
    using rest neq(4) by (simp add: dlseg_upd_notin)
  show ?thesis
  proof (cases ys)
    case Nil
    with rest have nx: "nxt ve = None" by simp
    have "evict_unlink ev v s =
            Some (s\<lparr>heap := ?h1(lx \<mapsto> elx\<lparr>nxt := None\<rparr>), singleton := Some (p\<lparr>lastEntry := Some lx\<rparr>)\<rparr>)"
      using elx ve neq p last Nil nx
      by (simp add: evict_unlink_def wr_def wrpool_def)
    moreover have "dll (?h1(lx \<mapsto> elx\<lparr>nxt := None\<rparr>)) None (firstEntry p) (xs @ ys)"
      using seg1 nx Nil by (simp add: dll_dlseg)
    ultimately show ?thesis
      using Nil xs neq by simp
  next
    case (Cons n ys')
    with rest obtain en where en: "nxt ve = Some n" "heap s n = Some en" "prev en = Some v"
      by (auto split: option.splits)
    from dist Cons xs have nneq: "n \<noteq> lx" "n \<noteq> v" "n \<notin> set xs" "n \<notin> set ys'"
      by auto
    let ?h2 = "?h1(n \<mapsto> en\<lparr>prev := Some lx\<rparr>)"
    have "evict_unlink ev v s = Some (s\<lparr>heap := ?h2\<rparr>)"
      using elx ve neq p last Cons en nneq
      by (simp add: evict_unlink_def wr_def wrpool_def)
    moreover have "dlseg ?h2 None (firstEntry p) xs (Some n)"
      using seg1 en(1) nneq(3) by (simp add: dlseg_upd_notin)
    moreover have "dlseg ?h2 (Some lx) (Some n) (n # ys') None"
      using dlseg_set_first_prev [OF rest1 [unfolded Cons en(1)] nneq(4), of "en" "Some lx"]
        en(1,2) nneq(1) by simp
    ultimately show ?thesis
      using Cons xs neq nneq p last
      by (auto simp: dll_dlseg dlseg_append)
  qed
qed

lemma evict_relink_sound:
  assumes dll: "dll (heap s) None (firstEntry p) as" and ne: "as \<noteq> []"
    and v: "v \<notin> set as" and dist: "distinct as"
    and hv: "heap s v = Some ve" and p: "singleton s = Some p"
  shows "\<exists>s'. evict_relink v s = Some s' \<and>
           dll (heap s') None (Some v) (v # as) \<and>
           singleton s' = Some (p\<lparr>firstEntry := Some v\<rparr>)"
proof -
  from ne obtain a as' where as: "as = a # as'" by (cases as) auto
  from dll as obtain ea where ea: "firstEntry p = Some a" "heap s a = Some ea"
    by (auto split: option.splits)
  from v dist as have neq: "a \<noteq> v" "v \<noteq> a" "a \<notin> set as'" "v \<notin> set as'" by auto
  let ?h = "(heap s)(v \<mapsto> ve\<lparr>prev := None, nxt := Some a\<rparr>, a \<mapsto> ea\<lparr>prev := Some v\<rparr>)"
  have "evict_relink v s = Some (s\<lparr>heap := ?h, singleton := Some (p\<lparr>firstEntry := Some v\<rparr>)\<rparr>)"
    using hv p ea neq by (simp add: evict_relink_def wr_def wrpool_def)
  moreover have "dlseg ?h (Some v) (Some a) (a # as') None"
  proof -
    have "dlseg ((heap s)(v \<mapsto> ve\<lparr>prev := None, nxt := Some a\<rparr>)) None (Some a) (a # as') None"
      using dll v as ea by (simp add: dll_dlseg dlseg_upd_notin del: dlseg.simps)
    from dlseg_set_first_prev [OF this neq(3), of ea "Some v"] ea neq show ?thesis by simp
  qed
  ultimately show ?thesis
    using as neq by (auto simp: dll_dlseg)
qed

lemma pool_self_update [simp]:
  "p\<lparr>refCountOfDisableRefCount := refCountOfDisableRefCount p\<rparr> = p"
  by simp

lemma evict_close_plain:
  assumes "heap s v = Some ve" and "singleton s = Some p"
  shows "\<exists>s'. evict_close (plain_env opener cfg dbg) v pid0 s = Some s' \<and>
           heap s' = (heap s)(v \<mapsto> ve\<lparr>pszFileName := [], poDS := None\<rparr>) \<and>
           singleton s' = Some p \<and> nextAddr s' = nextAddr s \<and>
           trace s' = trace s @ (case poDS ve of
                                   None \<Rightarrow> []
                                 | Some d \<Rightarrow> [EvClose d (responsiblePID ve)
                                                (refCountOfDisableRefCount p + 1)]) \<and>
           curPID s' = (case poDS ve of None \<Rightarrow> curPID s | Some d \<Rightarrow> pid0)"
  using assms
  by (cases "poDS ve")
     (auto simp: evict_close_def wr_def wrpool_def Let_def disableCount_def)

lemma open_entry_plain:
  assumes "heap s cur = Some e" and "singleton s = Some p"
  shows "\<exists>s'. open_entry (plain_env opener cfg dbg) cur fn acc opts pid0 s = Some (Some cur, s') \<and>
           heap s' = (heap s)(cur \<mapsto> e\<lparr>pszFileName := fn, responsiblePID := pid0, refCount := 1,
                                        poDS := opener fn\<rparr>) \<and>
           singleton s' = Some p \<and> nextAddr s' = nextAddr s \<and> curPID s' = curPID s \<and>
           trace s' = trace s @
             [EvOpen fn [if acc = GA_Update then GDAL_OF_UPDATE else GDAL_OF_READONLY,
                         GDAL_OF_RASTER, GDAL_OF_VERBOSE_ERROR] opts (curPID s)
                (refCountOfDisableRefCount p + 1)]"
  using assms
  by (auto simp: open_entry_def wr_def wrpool_def Let_def disableCount_def)

lemma links_only_payload:
  "links_only s s' \<Longrightarrow> map_option payload (heap s' a) = map_option payload (heap s a)"
  by (simp add: links_only_def)

lemma evict_sound:
  assumes pl: "pool_list s (xs @ v # ys)" and ne: "xs \<noteq> []"
    and p: "singleton s = Some p" and hv: "heap s v = Some ve"
  shows "\<exists>s'. evict (plain_env opener cfg dbg) v (curPID s) s = Some s' \<and>
           pool_list s' (v # xs @ ys) \<and>
           (\<forall>a. a \<noteq> v \<longrightarrow> map_option payload (heap s' a) = map_option payload (heap s a)) \<and>
           map_option payload (heap s' v) = Some (responsiblePID ve, [], None, refCount ve) \<and>
           map_option pool_counts (singleton s') = Some (pool_counts p) \<and>
           nextAddr s' = nextAddr s \<and> curPID s' = curPID s \<and>
           trace s' = trace s @ (case poDS ve of
                                   None \<Rightarrow> []
                                 | Some d \<Rightarrow> [EvClose d (responsiblePID ve)
                                                (refCountOfDisableRefCount p + 1)])"
proof -
  from pl p have dll: "dll (heap s) None (firstEntry p) (xs @ v # ys)"
    and dist: "distinct (xs @ v # ys)"
    and last: "lastEntry p = Some (last (v # ys))"
    and size: "currentSize p = int (length (xs @ v # ys))"
    by (auto simp: pool_list_def)
  from evict_close_plain [OF hv p, of opener cfg dbg "curPID s"] obtain s1 where
    s1: "evict_close (plain_env opener cfg dbg) v (curPID s) s = Some s1"
      "heap s1 = (heap s)(v \<mapsto> ve\<lparr>pszFileName := [], poDS := None\<rparr>)"
      "singleton s1 = Some p" "nextAddr s1 = nextAddr s"
      "trace s1 = trace s @ (case poDS ve of
                               None \<Rightarrow> []
                             | Some d \<Rightarrow> [EvClose d (responsiblePID ve)
                                            (refCountOfDisableRefCount p + 1)])"
      "curPID s1 = curPID s"
    by (auto split: option.splits)
  have dll1: "dll (heap s1) None (firstEntry p) (xs @ v # ys)"
    using dll hv by (simp add: s1(2) dll_dlseg dlseg_payload_upd)
  from evict_unlink_sound [OF dll1 dist ne s1(3) last, of "plain_env opener cfg dbg"] obtain s2 where
    s2: "evict_unlink (plain_env opener cfg dbg) v s1 = Some s2"
      "dll (heap s2) None (firstEntry p) (xs @ ys)"
      "singleton s2 = Some (p\<lparr>lastEntry := Some (last (xs @ ys))\<rparr>)"
      "heap s2 v = heap s1 v"
    by blast
  have lo2: "links_only s1 s2" using s2(1) by (rule evict_unlink_links_only)
  have hv2: "heap s2 v = Some (ve\<lparr>pszFileName := [], poDS := None\<rparr>)"
    by (simp add: s2(4) s1(2))
  from dist ne have d2: "distinct (xs @ ys)" "v \<notin> set (xs @ ys)" "xs @ ys \<noteq> []" by auto
  from evict_relink_sound [OF _ d2(3) d2(2) d2(1) hv2 s2(3)] s2(2) obtain s3 where
    s3: "evict_relink v s2 = Some s3" "dll (heap s3) None (Some v) (v # xs @ ys)"
      "singleton s3 = Some (p\<lparr>lastEntry := Some (last (xs @ ys)), firstEntry := Some v\<rparr>)"
    by auto
  have lo3: "links_only s2 s3" using s3(1) by (rule evict_relink_links_only)
  have lo: "links_only s1 s3" using lo2 lo3 by (rule links_only_trans)
  have ev: "evict (plain_env opener cfg dbg) v (curPID s) s = Some s3"
    by (simp add: evict_def s1(1) s2(1) s3(1))
  have pl3: "pool_list s3 (v # xs @ ys)"
    using s3(2,3) dist d2 size ne by (auto simp: pool_list_def)
  have pay: "map_option payload (heap s3 a) =
             map_option payload (((heap s)(v \<mapsto> ve\<lparr>pszFileName := [], poDS := None\<rparr>)) a)" for a
    using links_only_payload [OF lo, of a] by (simp add: s1(2))
  have cnt: "map_option pool_counts (singleton s3) = Some (pool_counts p)"
    by (simp add: s3(3) pool_counts_def)
  from lo have rest: "nextAddr s3 = nextAddr s1" "curPID s3 = curPID s1" "trace s3 = trace s1"
    by (simp_all add: links_only_def)
  show ?thesis
    using ev pl3 pay cnt rest s1(4,5,6)
    by (intro exI [of _ s3]) (simp add: payload_def)
qed

lemma prepend_sound:
  assumes pl: "pool_list s as" and p: "singleton s = Some p" and fresh: "nextAddr s \<notin> set as"
  shows "\<exists>s'. prepend s = Some (nextAddr s, s') \<and>
           pool_list s' (nextAddr s # as) \<and>
           (\<forall>a. a \<noteq> nextAddr s \<longrightarrow> map_option payload (heap s' a) = map_option payload (heap s a)) \<and>
           heap s' (nextAddr s) \<noteq> None \<and>
           map_option pool_counts (singleton s') =
             Some (poolRefCount p, maxSize p, currentSize p + 1, refCountOfDisableRefCount p) \<and>
           trace s' = trace s \<and> curPID s' = curPID s"
proof (cases as)
  case Nil
  with pl p have "firstEntry p = None" "lastEntry p = None" "currentSize p = 0"
    by (auto simp: pool_list_def)
  with p Nil show ?thesis
    by (simp add: prepend_def CPLMalloc_entry_def wr_def wrpool_def pool_list_def
        pool_counts_def payload_def)
next
  case (Cons a as')
  with pl p obtain ea where ea: "firstEntry p = Some a" "heap s a = Some ea"
    and last: "lastEntry p = Some (last as)" and size: "currentSize p = int (length as)"
    and dist: "distinct as" and dll: "dll (heap s) None (firstEntry p) as"
    by (auto simp: pool_list_def split: option.splits)
  from fresh Cons dist have neq: "a \<noteq> nextAddr s" "nextAddr s \<noteq> a" "a \<notin> set as'" by auto
  let ?c = "nextAddr s"
  let ?blank = "\<lparr>responsiblePID = 0, pszFileName = [], poDS = None, refCount = 0,
                 prev = None, nxt = Some a\<rparr>"
  let ?h = "(heap s)(?c \<mapsto> ?blank, a \<mapsto> ea\<lparr>prev := Some ?c\<rparr>)"
  have run: "prepend s =
        Some (?c, s\<lparr>heap := ?h, nextAddr := Suc ?c,
                     singleton := Some (p\<lparr>firstEntry := Some ?c, currentSize := currentSize p + 1\<rparr>)\<rparr>)"
    using p ea last neq
    by (simp add: prepend_def CPLMalloc_entry_def wr_def wrpool_def)
  have seg: "dlseg ?h (Some ?c) (Some a) (a # as') None"
  proof -
    have "dlseg ((heap s)(?c \<mapsto> ?blank)) None (Some a) (a # as') None"
      using dll fresh Cons ea by (simp add: dll_dlseg dlseg_upd_notin del: dlseg.simps)
    from dlseg_set_first_prev [OF this neq(3), of ea "Some ?c"] ea neq show ?thesis by simp
  qed
  show ?thesis
    using run seg Cons neq fresh dist last size ea
    by (auto simp: pool_list_def dll_dlseg pool_counts_def payload_def)
qed

lemma last_zero_all_zero:
  "list_all (\<lambda>a. case h a of None \<Rightarrow> False | Some e \<Rightarrow> refCount e = 0) as \<Longrightarrow>
     last_zero h as lz = (if as = [] then lz else Some (last as))"
  by (induction as arbitrary: lz) (auto split: option.splits)

subsection \<open>Eviction of the last entry\<close>

text \<open>
  C3. In a pool whose links are sound, whose size is \<open>maxSize\<close> (at least 2, as \<open>Ref\<close>
  makes it), where every entry has reference count 0 and none matches the request,
  \<open>RefDataset\<close> returns the last entry of the list. If that entry holds a dataset, the
  dataset is closed while the thread's responsible PID is the entry's stored one (and
  with \<open>refCountOfDisableRefCount\<close> raised), and that is the only close; then the file is
  opened under the caller's PID, which the thread has again at the end. The entry, now
  for the new file with reference count 1, is the first of the list and the others
  follow in their old order; no other entry changes but in its links, and the counters
  of the pool, its size among them, are as before.
\<close>

theorem RefDataset_evicts_tail:
  assumes pl: "pool_list s as" and p: "singleton s = Some p"
    and full: "currentSize p = maxSize p" and two: "2 \<le> maxSize p"
    and zero: "all_entries s as (\<lambda>e. refCount e = 0)"
    and miss: "all_entries s as (\<lambda>e. \<not> entry_matches fn bSh (curPID s) e)"
  shows "\<exists>s' ve. heap s (last as) = Some ve \<and>
           RefDataset (plain_env opener cfg dbg) fn acc opts bSh s = Some (Some (last as), s') \<and>
           pool_list s' (last as # butlast as) \<and>
           map_option payload (heap s' (last as)) = Some (curPID s, fn, opener fn, 1) \<and>
           (\<forall>a. a \<noteq> last as \<longrightarrow> map_option payload (heap s' a) = map_option payload (heap s a)) \<and>
           trace s' =
             trace s @
             (case poDS ve of
                None \<Rightarrow> []
              | Some d \<Rightarrow> [EvClose d (responsiblePID ve) (refCountOfDisableRefCount p + 1)]) @
             [EvOpen fn [if acc = GA_Update then GDAL_OF_UPDATE else GDAL_OF_READONLY,
                         GDAL_OF_RASTER, GDAL_OF_VERBOSE_ERROR] opts (curPID s)
                (refCountOfDisableRefCount p + 1)] \<and>
           curPID s' = curPID s \<and>
           map_option pool_counts (singleton s') = Some (pool_counts p)"
proof -
  from pl p full two have len: "2 \<le> length as" and dll: "dll (heap s) None (firstEntry p) as"
    by (auto simp: pool_list_def)
  from len obtain xs v where as: "as = xs @ [v]" and ne: "xs \<noteq> []"
    by (cases as rule: rev_cases) force+
  from zero as obtain ve where hv: "heap s v = Some ve"
    by (auto simp: all_entries_def split: option.splits)
  have "last_zero (heap s) as None = Some v"
    using last_zero_all_zero [OF zero [unfolded all_entries_def], of None] as by simp
  with RefDataset_scan_no_match [OF dll miss [unfolded all_entries_def], of None]
  have scan: "RefDataset_scan (heap s) fn bSh (curPID s) (firstEntry p) None = Some (None, Some v)"
    by simp
  from evict_sound [OF pl [unfolded as] ne p hv, of opener cfg dbg] obtain s2 where
    s2: "evict (plain_env opener cfg dbg) v (curPID s) s = Some s2"
      "pool_list s2 (v # xs @ [])"
      "\<forall>a. a \<noteq> v \<longrightarrow> map_option payload (heap s2 a) = map_option payload (heap s a)"
      "map_option payload (heap s2 v) = Some (responsiblePID ve, [], None, refCount ve)"
      "map_option pool_counts (singleton s2) = Some (pool_counts p)"
      "nextAddr s2 = nextAddr s" "curPID s2 = curPID s"
      "trace s2 = trace s @ (case poDS ve of
                               None \<Rightarrow> []
                             | Some d \<Rightarrow> [EvClose d (responsiblePID ve)
                                            (refCountOfDisableRefCount p + 1)])"
    by blast
  from s2(4) obtain e2 where e2: "heap s2 v = Some e2" by auto
  from s2(5) obtain p2 where p2: "singleton s2 = Some p2" "pool_counts p2 = pool_counts p" by auto
  from open_entry_plain [OF e2 p2(1), of opener cfg dbg fn acc opts "curPID s"] obtain s3 where
    s3: "open_entry (plain_env opener cfg dbg) v fn acc opts (curPID s) s2 = Some (Some v, s3)"
      "heap s3 = (heap s2)(v \<mapsto> e2\<lparr>pszFileName := fn, responsiblePID := curPID s, refCount := 1,
                                     poDS := opener fn\<rparr>)"
      "singleton s3 = Some p2" "nextAddr s3 = nextAddr s2" "curPID s3 = curPID s2"
      "trace s3 = trace s2 @
         [EvOpen fn [if acc = GA_Update then GDAL_OF_UPDATE else GDAL_OF_READONLY,
                     GDAL_OF_RASTER, GDAL_OF_VERBOSE_ERROR] opts (curPID s2)
            (refCountOfDisableRefCount p2 + 1)]"
    by blast
  have run: "RefDataset (plain_env opener cfg dbg) fn acc opts bSh s = Some (Some v, s3)"
    using priv_RefDataset_eq [OF p scan] p full s2(1) s3(1) by (simp add: RefDataset_def)
  have pl3: "pool_list s3 (v # xs)"
    using s2(2) e2 p2(1) by (simp add: pool_list_def s3(2,3) dll_dlseg dlseg_payload_upd)
  have d: "refCountOfDisableRefCount p2 = refCountOfDisableRefCount p"
    using p2(2) by (simp add: pool_counts_def)
  show ?thesis
    using hv run pl3 s2(3,7,8) s3(2,3,5,6) p2 d as
    by (intro exI [of _ s3] exI [of _ ve]) (simp add: payload_def)
qed

theorem RefDataset_evicts_tail_witness:
  "case state_two_released of
     None \<Rightarrow> False
   | Some s \<Rightarrow>
       (case RefDataset (plain_env test_opener (pool_size_config ''2'') False) ''C'' GA_ReadOnly None True s of
          None \<Rightarrow> False
        | Some (r, s') \<Rightarrow>
            r = Some 1 \<and> pool_list s [2, 1] \<and> pool_list s' [1, 2] \<and>
            trace s' = trace s @
              [EvClose 10 1 1,
               EvOpen ''C'' [GDAL_OF_READONLY, GDAL_OF_RASTER, GDAL_OF_VERBOSE_ERROR] None 1 1])"
proof -
  have "case state_two_released of
          None \<Rightarrow> False
        | Some s \<Rightarrow>
            pool_list s [2, 1] \<and>
            singleton s = Some \<lparr>poolRefCount = 1, maxSize = 2, currentSize = 2, firstEntry = Some 2,
                                 lastEntry = Some 1, refCountOfDisableRefCount = 0\<rparr> \<and>
            all_entries s [2, 1] (\<lambda>e. refCount e = 0) \<and>
            all_entries s [2, 1] (\<lambda>e. \<not> entry_matches ''C'' True (curPID s) e) \<and>
            heap s 1 = Some \<lparr>responsiblePID = 1, pszFileName = ''A'', poDS = Some 10, refCount = 0,
                              prev = Some 2, nxt = None\<rparr> \<and>
            curPID s = 1"
    by code_simp
  then obtain s where s: "state_two_released = Some s" "pool_list s [2, 1]"
    "singleton s = Some \<lparr>poolRefCount = 1, maxSize = 2, currentSize = 2, firstEntry = Some 2,
                          lastEntry = Some 1, refCountOfDisableRefCount = 0\<rparr>"
    "all_entries s [2, 1] (\<lambda>e. refCount e = 0)"
    "all_entries s [2, 1] (\<lambda>e. \<not> entry_matches ''C'' True (curPID s) e)"
    "heap s 1 = Some \<lparr>responsiblePID = 1, pszFileName = ''A'', poDS = Some 10, refCount = 0,
                       prev = Some 2, nxt = None\<rparr>"
    "curPID s = 1"
    unfolding case_option_False_conv by blast
  from RefDataset_evicts_tail [OF s(2,3) _ _ s(4,5), of test_opener "pool_size_config ''2''" False
      GA_ReadOnly None]
  obtain s' where s':
    "RefDataset (plain_env test_opener (pool_size_config ''2'') False) ''C'' GA_ReadOnly None True s =
       Some (Some 1, s')"
    "pool_list s' [1, 2]"
    "trace s' = trace s @
        [EvClose 10 1 1,
         EvOpen ''C'' [GDAL_OF_READONLY, GDAL_OF_RASTER, GDAL_OF_VERBOSE_ERROR] None 1 1]"
    using s(6,7) by auto
  show ?thesis using s(2) s'(2,3) by (simp add: s(1) s'(1))
qed

subsection \<open>Closing the dataset of a file\<close>











subsection \<open>A file that cannot be opened\<close>

lemma last_zero_Some: "last_zero h as lz = Some v \<Longrightarrow> lz \<noteq> Some v \<Longrightarrow> v \<in> set as"
  by (induction as arbitrary: lz) (auto split: option.splits if_splits)

lemma pool_list_cong:
  "heap s' = heap s \<Longrightarrow> singleton s' = singleton s \<Longrightarrow> pool_list s' as = pool_list s as"
  by (auto simp: pool_list_def split: option.splits)

lemma slot_of_miss_cong:
  "heap s' = heap s \<Longrightarrow> singleton s' = singleton s \<Longrightarrow> nextAddr s' = nextAddr s \<Longrightarrow>
     slot_of_miss s' as = slot_of_miss s as"
  by (auto simp: slot_of_miss_def split: option.splits)

lemma RefDataset_miss:
  assumes pl: "pool_list s as" and p: "singleton s = Some p"
    and miss: "all_entries s as (\<lambda>e. \<not> entry_matches fn bSh (curPID s) e)"
    and slot: "slot_of_miss s as = Some a"
  shows "\<exists>s' e'. RefDataset (plain_env opener cfg dbg) fn acc opts bSh s = Some (Some a, s') \<and>
           pool_list s' (a # remove1 a as) \<and>
           heap s' a = Some e' \<and> payload e' = (curPID s, fn, opener fn, 1) \<and>
           (\<forall>b. b \<noteq> a \<longrightarrow> map_option payload (heap s' b) = map_option payload (heap s b)) \<and>
           curPID s' = curPID s"
proof -
  from pl p have dll: "dll (heap s) None (firstEntry p) as" and dist: "distinct as"
    by (auto simp: pool_list_def)
  from RefDataset_scan_no_match [OF dll miss [unfolded all_entries_def], of None]
  have scan: "RefDataset_scan (heap s) fn bSh (curPID s) (firstEntry p) None =
                Some (None, last_zero (heap s) as None)" .
  note eq = priv_RefDataset_eq [OF p scan, of "plain_env opener cfg dbg" acc opts]
  have fin: ?thesis
    if s2: "pool_list s2 (a # remove1 a as)" "heap s2 a = Some e2" "singleton s2 = Some p2"
      "\<forall>b. b \<noteq> a \<longrightarrow> map_option payload (heap s2 b) = map_option payload (heap s b)"
      "curPID s2 = curPID s"
    and run: "\<And>r. open_entry (plain_env opener cfg dbg) a fn acc opts (curPID s) s2 = r \<Longrightarrow>
          RefDataset (plain_env opener cfg dbg) fn acc opts bSh s = r"
    for s2 e2 p2
  proof -
    from open_entry_plain [OF s2(2,3), of opener cfg dbg fn acc opts "curPID s"] obtain s3 where
      s3: "open_entry (plain_env opener cfg dbg) a fn acc opts (curPID s) s2 = Some (Some a, s3)"
        "heap s3 = (heap s2)(a \<mapsto> e2\<lparr>pszFileName := fn, responsiblePID := curPID s, refCount := 1,
                                       poDS := opener fn\<rparr>)"
        "singleton s3 = Some p2" "curPID s3 = curPID s2"
      by blast
    have "pool_list s3 (a # remove1 a as)"
      using s2(1,2,3) by (simp add: pool_list_def s3(2,3) dll_dlseg dlseg_payload_upd)
    with run [OF s3(1)] s3(2,4) s2(4,5) show ?thesis
      by (intro exI [of _ s3]) (simp add: payload_def)
  qed
  show ?thesis
  proof (cases "currentSize p = maxSize p")
    case True
    with slot p have lz: "last_zero (heap s) as None = Some a" and nf: "Some a \<noteq> firstEntry p"
      by (auto simp: slot_of_miss_def split: option.splits if_splits)
    from last_zero_Some [OF lz] have "a \<in> set as" by simp
    then obtain xs ys where as: "as = xs @ a # ys" by (auto simp: in_set_conv_decomp)
    from dll nf as have ne: "xs \<noteq> []" by (cases xs) auto
    from dll as obtain ve where hv: "heap s a = Some ve"
      using dlseg_dom [of "heap s" None "firstEntry p" as None a] by (auto simp: dll_dlseg)
    from dist as have rm: "remove1 a as = xs @ ys" by (simp add: remove1_append)
    from evict_sound [OF pl [unfolded as] ne p hv, of opener cfg dbg] obtain s2 where
      s2: "evict (plain_env opener cfg dbg) a (curPID s) s = Some s2"
        "pool_list s2 (a # xs @ ys)"
        "\<forall>b. b \<noteq> a \<longrightarrow> map_option payload (heap s2 b) = map_option payload (heap s b)"
        "map_option payload (heap s2 a) = Some (responsiblePID ve, [], None, refCount ve)"
        "map_option pool_counts (singleton s2) = Some (pool_counts p)"
        "curPID s2 = curPID s"
      by blast
    from s2(4) obtain e2 where e2: "heap s2 a = Some e2" by auto
    from s2(5) obtain p2 where p2: "singleton s2 = Some p2" by auto
    show ?thesis
    proof (rule fin [OF _ e2 p2 s2(3) s2(6)])
      show "pool_list s2 (a # remove1 a as)" using s2(2) rm by simp
    next
      fix r assume "open_entry (plain_env opener cfg dbg) a fn acc opts (curPID s) s2 = r"
      with eq True lz s2(1) p show "RefDataset (plain_env opener cfg dbg) fn acc opts bSh s = r"
        by (simp add: RefDataset_def)
    qed
  next
    case False
    with slot p have a: "a = nextAddr s" and fresh: "nextAddr s \<notin> set as"
      by (auto simp: slot_of_miss_def split: option.splits if_splits)
    from prepend_sound [OF pl p fresh] obtain s2 where
      s2: "prepend s = Some (nextAddr s, s2)" "pool_list s2 (nextAddr s # as)"
        "\<forall>b. b \<noteq> nextAddr s \<longrightarrow> map_option payload (heap s2 b) = map_option payload (heap s b)"
        "heap s2 (nextAddr s) \<noteq> None"
        "map_option pool_counts (singleton s2) =
           Some (poolRefCount p, maxSize p, currentSize p + 1, refCountOfDisableRefCount p)"
        "curPID s2 = curPID s"
      by blast
    from s2(4) obtain e2 where e2: "heap s2 a = Some e2" by (auto simp: a)
    from s2(5) obtain p2 where p2: "singleton s2 = Some p2" by auto
    show ?thesis
    proof (rule fin [OF _ e2 p2 _ s2(6)])
      show "pool_list s2 (a # remove1 a as)" using s2(2) fresh by (simp add: a remove1_idem)
    next
      show "\<forall>b. b \<noteq> a \<longrightarrow> map_option payload (heap s2 b) = map_option payload (heap s b)"
        using s2(3) by (simp add: a)
    next
      fix r assume "open_entry (plain_env opener cfg dbg) a fn acc opts (curPID s) s2 = r"
      with eq False s2(1) p show "RefDataset (plain_env opener cfg dbg) fn acc opts bSh s = r"
        by (simp add: RefDataset_def a)
    qed
  qed
qed

text \<open>
  C7. On a sound list with no entry matching the proxy dataset, and a slot \<open>a\<close> for the
  miss, if the driver fails to open the file then \<open>RefDataset\<close> still returns the entry
  \<open>a\<close>, first in the list, with no dataset, reference count 1 and the file name of the
  proxy; \<open>RefUnderlyingDataset\<close> returns no dataset, after it has released that entry
  (reference count back to 0) and restored the responsible thread of the caller.
\<close>

theorem RefUnderlyingDataset_open_fails:
  assumes pl: "pool_list s as"
    and miss: "all_entries s as
                 (\<lambda>e. \<not> entry_matches (description ds) (bShared ds) (dsResponsiblePID ds) e)"
    and slot: "slot_of_miss s as = Some a"
    and fail: "opener (description ds) = None"
  shows "\<exists>s1 e1.
           RefDataset (plain_env opener cfg dbg) (description ds) (eAccess ds) (papszOpenOptions ds)
               (bShared ds) (GDALSetResponsiblePIDForCurrentThread (dsResponsiblePID ds) s) =
             Some (Some a, s1) \<and>
           heap s1 a = Some e1 \<and> poDS e1 = None \<and> refCount e1 = 1 \<and>
           pszFileName e1 = description ds \<and>
           pool_list s1 (a # remove1 a as) \<and>
           RefUnderlyingDataset (plain_env opener cfg dbg) ds s =
             Some (None, ds\<lparr>cacheEntry := Some a\<rparr>,
                   s1\<lparr>curPID := curPID s, heap := (heap s1)(a \<mapsto> e1\<lparr>refCount := 0\<rparr>)\<rparr>)"
proof -
  let ?s0 = "GDALSetResponsiblePIDForCurrentThread (dsResponsiblePID ds) s"
  from pl obtain p where p: "singleton ?s0 = Some p"
    by (auto simp: pool_list_def split: option.splits)
  have pl0: "pool_list ?s0 as" using pl pool_list_cong [of ?s0 s as] by simp
  have miss0: "all_entries ?s0 as
      (\<lambda>e. \<not> entry_matches (description ds) (bShared ds) (curPID ?s0) e)"
    using miss by (simp add: all_entries_def)
  have slot0: "slot_of_miss ?s0 as = Some a" using slot slot_of_miss_cong [of ?s0 s as] by simp
  from RefDataset_miss [OF pl0 p miss0 slot0, of opener cfg dbg "eAccess ds" "papszOpenOptions ds"]
  obtain s1 e1 where
    s1: "RefDataset (plain_env opener cfg dbg) (description ds) (eAccess ds) (papszOpenOptions ds)
           (bShared ds) ?s0 = Some (Some a, s1)"
      "pool_list s1 (a # remove1 a as)" "heap s1 a = Some e1"
      "payload e1 = (curPID ?s0, description ds, opener (description ds), 1)"
    by blast
  from s1(4) fail have e1: "poDS e1 = None" "refCount e1 = 1" "pszFileName e1 = description ds"
    by (simp_all add: payload_def)
  have "RefUnderlyingDataset (plain_env opener cfg dbg) ds s =
          Some (None, ds\<lparr>cacheEntry := Some a\<rparr>,
                s1\<lparr>curPID := curPID s, heap := (heap s1)(a \<mapsto> e1\<lparr>refCount := 0\<rparr>)\<rparr>)"
    using s1(1,3) e1 by (simp add: RefUnderlyingDataset_def UnrefDataset_def wr_def Let_def)
  with s1 e1 show ?thesis by blast
qed

theorem RefUnderlyingDataset_open_fails_witness:
  "case RefUnderlyingDataset (plain_env test_opener (pool_size_config ''2'') False) proxy_missing
          state_fresh of
     None \<Rightarrow> False
   | Some (d, ds', s2) \<Rightarrow>
       d = None \<and> cacheEntry ds' = Some 1 \<and>
       map_option refCount (heap s2 1) = Some 0 \<and> map_option poDS (heap s2 1) = Some None"
proof -
  have h: "pool_list state_fresh []" "slot_of_miss state_fresh [] = Some 1"
    "test_opener (description proxy_missing) = None"
    by code_simp+
  have m: "all_entries state_fresh []
      (\<lambda>e. \<not> entry_matches (description proxy_missing) (bShared proxy_missing)
               (dsResponsiblePID proxy_missing) e)"
    by simp
  from RefUnderlyingDataset_open_fails [where s = state_fresh and as = "[]" and ds = proxy_missing
      and a = 1 and opener = test_opener and cfg = "pool_size_config ''2''" and dbg = False,
      OF h(1) m h(2,3)]
  obtain s1 e1 where
    "RefUnderlyingDataset (plain_env test_opener (pool_size_config ''2'') False) proxy_missing
       state_fresh =
     Some (None, proxy_missing\<lparr>cacheEntry := Some 1\<rparr>,
           s1\<lparr>curPID := curPID state_fresh, heap := (heap s1)(1 \<mapsto> e1\<lparr>refCount := 0\<rparr>)\<rparr>)"
    "poDS e1 = None"
    by blast
  then show ?thesis by simp
qed

subsection \<open>Two shared references in a row\<close>

lemma move_to_begin_split:
  "move_to_begin cur s = Option.bind (move_unlink cur s) (move_relink cur)"
  by (simp add: move_to_begin_def move_unlink_def move_relink_def [abs_def])

lemma move_unlink_sound:
  assumes dll: "dll (heap s) None (firstEntry p) (xs @ v # ys)"
    and dist: "distinct (xs @ v # ys)" and ne: "xs \<noteq> []"
    and p: "singleton s = Some p" and last: "lastEntry p = Some (last (v # ys))"
  shows "\<exists>s'. move_unlink v s = Some s' \<and>
           dll (heap s') None (firstEntry p) (xs @ ys) \<and>
           singleton s' = Some (p\<lparr>lastEntry := Some (last (xs @ ys))\<rparr>) \<and>
           heap s' v = heap s v"
proof -
  from ne obtain xs' lx where xs: "xs = xs' @ [lx]"
    by (cases xs rule: rev_cases) auto
  from dll ne obtain elx ve where
    elx: "heap s lx = Some elx" "nxt elx = Some v"
    and ve: "heap s v = Some ve" "prev ve = Some lx"
    and seg: "dlseg (heap s) None (firstEntry p) xs (Some v)"
    and rest: "dlseg (heap s) (Some v) (nxt ve) ys None"
    by (rule dll_middle) (auto simp: xs)
  from dist xs have neq: "lx \<noteq> v" "v \<noteq> lx" "lx \<notin> set xs'" "lx \<notin> set ys" "v \<notin> set ys" "v \<notin> set xs"
    by auto
  let ?h1 = "(heap s)(lx \<mapsto> elx\<lparr>nxt := nxt ve\<rparr>)"
  have seg1: "dlseg ?h1 None (firstEntry p) xs (nxt ve)"
    using dlseg_set_last_next [OF seg [unfolded xs] neq(3) elx(1)] by (simp add: xs)
  have rest1: "dlseg ?h1 (Some v) (nxt ve) ys None"
    using rest neq(4) by (simp add: dlseg_upd_notin)
  show ?thesis
  proof (cases ys)
    case Nil
    with rest have nx: "nxt ve = None" by simp
    have "move_unlink v s =
            Some (s\<lparr>heap := ?h1, singleton := Some (p\<lparr>lastEntry := Some lx\<rparr>)\<rparr>)"
      using elx ve neq p last Nil nx
      by (simp add: move_unlink_def wr_def wrpool_def)
    moreover have "dll ?h1 None (firstEntry p) (xs @ ys)"
      using seg1 nx Nil by (simp add: dll_dlseg)
    ultimately show ?thesis
      using Nil xs neq by simp
  next
    case (Cons n ys')
    with rest obtain en where en: "nxt ve = Some n" "heap s n = Some en" "prev en = Some v"
      by (auto split: option.splits)
    from dist Cons xs have nneq: "n \<noteq> lx" "n \<noteq> v" "n \<notin> set xs" "n \<notin> set ys'" "lx \<noteq> n"
      by auto
    let ?h2 = "?h1(n \<mapsto> en\<lparr>prev := Some lx\<rparr>)"
    have tw: "(heap s)(n \<mapsto> en\<lparr>prev := Some lx\<rparr>, lx \<mapsto> elx\<lparr>nxt := Some n\<rparr>) = ?h2"
      using nneq en(1) by (auto simp: fun_eq_iff)
    have "move_unlink v s =
            Some (s\<lparr>heap := (heap s)(n \<mapsto> en\<lparr>prev := Some lx\<rparr>, lx \<mapsto> elx\<lparr>nxt := Some n\<rparr>)\<rparr>)"
      using elx ve neq p last Cons en nneq
      by (simp add: move_unlink_def wr_def wrpool_def)
    then have "move_unlink v s = Some (s\<lparr>heap := ?h2\<rparr>)"
      by (simp only: tw)
    moreover have "dlseg ?h2 None (firstEntry p) xs (Some n)"
      using seg1 en(1) nneq(3) by (simp add: dlseg_upd_notin)
    moreover have "dlseg ?h2 (Some lx) (Some n) (n # ys') None"
      using dlseg_set_first_prev [OF rest1 [unfolded Cons en(1)] nneq(4), of "en" "Some lx"]
        en(1,2) nneq(1) by simp
    ultimately show ?thesis
      using Cons xs neq nneq p last
      by (auto simp: dll_dlseg dlseg_append)
  qed
qed

lemma move_relink_sound:
  assumes dll: "dll (heap s) None (firstEntry p) as" and ne: "as \<noteq> []"
    and v: "v \<notin> set as" and dist: "distinct as"
    and hv: "heap s v = Some ve" and p: "singleton s = Some p"
  shows "\<exists>s'. move_relink v s = Some s' \<and>
           dll (heap s') None (Some v) (v # as) \<and>
           singleton s' = Some (p\<lparr>firstEntry := Some v\<rparr>)"
proof -
  from ne obtain a as' where as: "as = a # as'" by (cases as) auto
  from dll as obtain ea where ea: "firstEntry p = Some a" "heap s a = Some ea"
    by (auto split: option.splits)
  from v dist as have neq: "a \<noteq> v" "v \<noteq> a" "a \<notin> set as'" "v \<notin> set as'" by auto
  let ?h = "(heap s)(v \<mapsto> ve\<lparr>prev := None, nxt := Some a\<rparr>, a \<mapsto> ea\<lparr>prev := Some v\<rparr>)"
  let ?k = "(heap s)(v \<mapsto> ve\<lparr>prev := None\<rparr>, a \<mapsto> ea\<lparr>prev := Some v\<rparr>,
                      v \<mapsto> ve\<lparr>prev := None, nxt := Some a\<rparr>)"
  have tw: "?k = ?h" using neq by (auto simp: fun_eq_iff)
  have "move_relink v s = Some (s\<lparr>heap := ?k, singleton := Some (p\<lparr>firstEntry := Some v\<rparr>)\<rparr>)"
    using hv p ea neq by (simp add: move_relink_def wr_def wrpool_def)
  then have "move_relink v s = Some (s\<lparr>heap := ?h, singleton := Some (p\<lparr>firstEntry := Some v\<rparr>)\<rparr>)"
    by (simp only: tw)
  moreover have "dlseg ?h (Some v) (Some a) (a # as') None"
  proof -
    have "dlseg ((heap s)(v \<mapsto> ve\<lparr>prev := None, nxt := Some a\<rparr>)) None (Some a) (a # as') None"
      using dll v as ea by (simp add: dll_dlseg dlseg_upd_notin del: dlseg.simps)
    from dlseg_set_first_prev [OF this neq(3), of ea "Some v"] ea neq show ?thesis by simp
  qed
  ultimately show ?thesis
    using as neq by (auto simp: dll_dlseg)
qed

lemma move_to_begin_sound:
  assumes pl: "pool_list s (xs @ v # ys)" and ne: "xs \<noteq> []"
  shows "\<exists>s'. move_to_begin v s = Some s' \<and> pool_list s' (v # xs @ ys) \<and> links_only s s'"
proof -
  from pl obtain p where p: "singleton s = Some p"
    and dll: "dll (heap s) None (firstEntry p) (xs @ v # ys)"
    and dist: "distinct (xs @ v # ys)"
    and last: "lastEntry p = Some (last (v # ys))"
    and size: "currentSize p = int (length (xs @ v # ys))"
    by (auto simp: pool_list_def split: option.splits)
  from dll obtain ve where hv: "heap s v = Some ve"
    using dlseg_dom [of "heap s" None "firstEntry p" "xs @ v # ys" None v]
    by (auto simp: dll_dlseg)
  from move_unlink_sound [OF dll dist ne p last] obtain s2 where
    s2: "move_unlink v s = Some s2"
      "dll (heap s2) None (firstEntry p) (xs @ ys)"
      "singleton s2 = Some (p\<lparr>lastEntry := Some (last (xs @ ys))\<rparr>)"
      "heap s2 v = heap s v"
    by blast
  have hv2: "heap s2 v = Some ve" by (simp add: s2(4) hv)
  from dist ne have d2: "distinct (xs @ ys)" "v \<notin> set (xs @ ys)" "xs @ ys \<noteq> []" by auto
  from move_relink_sound [OF _ d2(3) d2(2) d2(1) hv2 s2(3)] s2(2) obtain s3 where
    s3: "move_relink v s2 = Some s3" "dll (heap s3) None (Some v) (v # xs @ ys)"
      "singleton s3 = Some (p\<lparr>lastEntry := Some (last (xs @ ys)), firstEntry := Some v\<rparr>)"
    by auto
  have run: "move_to_begin v s = Some s3"
    by (simp add: move_to_begin_split s2(1) s3(1))
  have pl3: "pool_list s3 (v # xs @ ys)"
    using s3(2,3) dist d2 size ne by (auto simp: pool_list_def)
  from run pl3 move_to_begin_links_only [OF run] show ?thesis by blast
qed

lemma RefDataset_scan_first_match:
  "dll h pr cur as \<Longrightarrow> first_match h fn bSh pid as = Some a \<Longrightarrow>
     \<exists>lz'. RefDataset_scan h fn bSh pid cur lz = Some (Some a, lz')"
proof (induction as arbitrary: pr cur lz)
  case Nil
  then show ?case by (simp add: first_match_def)
next
  case (Cons x xs)
  from Cons.prems(1) obtain e where e: "cur = Some x" "h x = Some e" "dll h (Some x) (nxt e) xs"
    by (auto split: option.splits)
  show ?case
  proof (cases "entry_matches fn bSh pid e")
    case True
    with Cons.prems(2) e have "a = x" by (simp add: first_match_def)
    with True e show ?thesis
      by (subst RefDataset_scan.simps) (simp add: entry_matches_def)
  next
    case False
    with Cons.prems(2) e have "first_match h fn bSh pid xs = Some a"
      by (simp add: first_match_def)
    from Cons.IH [OF e(3) this] False e show ?thesis
      by (subst RefDataset_scan.simps) (auto simp: entry_matches_def)
  qed
qed

lemma first_match_None:
  "dll h pr cur as \<Longrightarrow> first_match h fn bSh pid as = None \<Longrightarrow>
     list_all (\<lambda>a. case h a of None \<Rightarrow> False | Some e \<Rightarrow> \<not> entry_matches fn bSh pid e) as"
proof (induction as arbitrary: pr cur)
  case Nil
  then show ?case by simp
next
  case (Cons x xs)
  from Cons.prems(1) obtain e where e: "cur = Some x" "h x = Some e" "dll h (Some x) (nxt e) xs"
    by (auto split: option.splits)
  from Cons.prems(2) e have m: "\<not> entry_matches fn bSh pid e" "first_match h fn bSh pid xs = None"
    by (auto simp: first_match_def split: if_splits)
  from Cons.IH [OF e(3) m(2)] m(1) e(2) show ?case by simp
qed

lemma first_match_Some:
  "first_match h fn bSh pid as = Some a \<Longrightarrow>
     a \<in> set as \<and> (\<exists>e. h a = Some e \<and> entry_matches fn bSh pid e)"
  by (auto simp: first_match_def find_Some_iff split: option.splits)

lemma pool_list_payload_upd:
  assumes "pool_list s as" and "heap s a = Some e" and "prev e' = prev e" and "nxt e' = nxt e"
  shows "pool_list (s\<lparr>heap := (heap s)(a \<mapsto> e')\<rparr>) as"
  using assms by (auto simp: pool_list_def dll_dlseg dlseg_payload_upd split: option.splits)

lemma RefDataset_hit:
  assumes pl: "pool_list s as"
    and fm: "first_match (heap s) fn bSh (curPID s) as = Some a"
  shows "\<exists>s' e. heap s a = Some e \<and> hit_refCount s fn bSh = refCount e \<and>
           RefDataset ev fn acc opts bSh s = Some (Some a, s') \<and>
           pool_list s' (a # remove1 a as) \<and>
           map_option payload (heap s' a) =
             Some (responsiblePID e, pszFileName e, poDS e, refCount e + 1) \<and>
           (\<forall>b. b \<noteq> a \<longrightarrow> map_option payload (heap s' b) = map_option payload (heap s b)) \<and>
           curPID s' = curPID s \<and> trace s' = trace s"
proof -
  from pl obtain p where p: "singleton s = Some p"
    and dll: "dll (heap s) None (firstEntry p) as" and dist: "distinct as"
    by (auto simp: pool_list_def split: option.splits)
  from first_match_Some [OF fm] obtain e where
    a: "a \<in> set as" and e: "heap s a = Some e" by blast
  from RefDataset_scan_first_match [OF dll fm, of None] obtain lz where
    sc: "RefDataset_scan (heap s) fn bSh (curPID s) (firstEntry p) None = Some (Some a, lz)"
    by blast
  have hr: "hit_refCount s fn bSh = refCount e"
    by (simp add: hit_refCount_def p sc e)
  from a obtain xs ys where as: "as = xs @ a # ys" by (auto simp: in_set_conv_decomp)
  with dist have rm: "remove1 a as = xs @ ys"
    by (simp add: remove1_append)
  have "\<exists>sm. (if Some a \<noteq> firstEntry p then move_to_begin a s else Some s) = Some sm \<and>
          pool_list sm (a # xs @ ys) \<and> links_only s sm"
  proof (cases xs)
    case Nil
    with dll as have "firstEntry p = Some a" by simp
    with pl as Nil show ?thesis by simp
  next
    case (Cons x xs')
    with dll as have "firstEntry p = Some x" by simp
    moreover from dist as Cons have "x \<noteq> a" by auto
    ultimately have "Some a \<noteq> firstEntry p" by simp
    moreover from Cons have "xs \<noteq> []" by simp
    from move_to_begin_sound [OF pl [unfolded as] this]
    have "\<exists>sm. move_to_begin a s = Some sm \<and> pool_list sm (a # xs @ ys) \<and> links_only s sm" .
    ultimately show ?thesis by simp
  qed
  then obtain sm where
    sm: "(if Some a \<noteq> firstEntry p then move_to_begin a s else Some s) = Some sm"
      "pool_list sm (a # xs @ ys)" "links_only s sm"
    by blast
  from links_only_payload [OF sm(3), of a] e obtain em where
    em: "heap sm a = Some em" "payload em = payload e"
    by auto
  let ?s' = "sm\<lparr>heap := (heap sm)(a \<mapsto> em\<lparr>refCount := refCount em + 1\<rparr>)\<rparr>"
  have run: "RefDataset ev fn acc opts bSh s = Some (Some a, ?s')"
    using p by (simp add: RefDataset_def priv_RefDataset_eq [OF p sc] sm(1) wr_def em(1))
  have pl': "pool_list ?s' (a # remove1 a as)"
    unfolding rm by (rule pool_list_payload_upd [OF sm(2) em(1)]) simp_all
  have pay: "map_option payload (heap ?s' b) = map_option payload (heap s b)" if "b \<noteq> a" for b
    using links_only_payload [OF sm(3), of b] that by simp
  have "curPID ?s' = curPID s" "trace ?s' = trace s"
    using sm(3) by (simp_all add: links_only_def)
  with e hr run pl' pay em show ?thesis
    by (intro exI [of _ ?s'] exI [of _ e]) (simp add: payload_def)
qed

lemma hit_refCount_miss:
  assumes "pool_list s as" and "first_match (heap s) fn bSh (curPID s) as = None"
  shows "hit_refCount s fn bSh = 0"
    and "all_entries s as (\<lambda>e. \<not> entry_matches fn bSh (curPID s) e)"
proof -
  from assms(1) obtain p where p: "singleton s = Some p"
    and dll: "dll (heap s) None (firstEntry p) as"
    by (auto simp: pool_list_def split: option.splits)
  from first_match_None [OF dll assms(2)]
  show m: "all_entries s as (\<lambda>e. \<not> entry_matches fn bSh (curPID s) e)"
    by (simp add: all_entries_def)
  from RefDataset_scan_no_match [OF dll m [unfolded all_entries_def], of None]
  show "hit_refCount s fn bSh = 0"
    by (simp add: hit_refCount_def p)
qed

text \<open>
  C5. On a sound list, let \<open>a\<close> be the entry that \<open>_RefDataset\<close> returns for the file
  (the first match, or the slot of a miss), and let the file not be referenced yet through
  an entry of this thread. Then \<open>RefDataset\<close> with \<open>bShared\<close> set returns \<open>a\<close>, moved
  to the head of the list, with reference count 1; the same call repeated at once by the
  same thread returns \<open>a\<close> again and changes nothing but its reference count, which is
  then 2; \<open>a\<close> is still at the head of the list.
\<close>

theorem RefDataset_shared_twice:
  assumes pl: "pool_list s as"
    and slot: "slot_of_ref s as fn True = Some a"
    and fresh: "hit_refCount s fn True = 0"
  shows "\<exists>s1 s2 e1.
           RefDataset (plain_env opener cfg dbg) fn acc opts True s = Some (Some a, s1) \<and>
           heap s1 a = Some e1 \<and> refCount e1 = 1 \<and> pool_list s1 (a # remove1 a as) \<and>
           RefDataset (plain_env opener cfg dbg) fn acc opts True s1 = Some (Some a, s2) \<and>
           s2 = s1\<lparr>heap := (heap s1)(a \<mapsto> e1\<lparr>refCount := 2\<rparr>)\<rparr> \<and>
           pool_list s2 (a # remove1 a as)"
proof -
  from pl obtain p where p: "singleton s = Some p"
    by (auto simp: pool_list_def split: option.splits)
  have "\<exists>s1. RefDataset (plain_env opener cfg dbg) fn acc opts True s = Some (Some a, s1) \<and>
          pool_list s1 (a # remove1 a as)"
  proof (cases "first_match (heap s) fn True (curPID s) as")
    case None
    with slot have sl: "slot_of_miss s as = Some a" by (simp add: slot_of_ref_def)
    from RefDataset_miss [OF pl p hit_refCount_miss(2) [OF pl None] sl, of opener cfg dbg acc opts]
    show ?thesis by blast
  next
    case (Some b)
    with slot have "b = a" by (simp add: slot_of_ref_def)
    with Some RefDataset_hit [OF pl, of fn True a "plain_env opener cfg dbg" acc opts]
    show ?thesis by blast
  qed
  then obtain s1 where
    s1: "RefDataset (plain_env opener cfg dbg) fn acc opts True s = Some (Some a, s1)"
      "pool_list s1 (a # remove1 a as)"
    by blast
  from RefDataset_shared_again [OF s1(1)] fresh obtain e1 where
    e1: "heap s1 a = Some e1" "refCount e1 = 1"
      "RefDataset (plain_env opener cfg dbg) fn acc opts True s1 =
         Some (Some a, s1\<lparr>heap := (heap s1)(a \<mapsto> e1\<lparr>refCount := 2\<rparr>)\<rparr>)"
    by auto
  have "pool_list (s1\<lparr>heap := (heap s1)(a \<mapsto> e1\<lparr>refCount := 2\<rparr>)\<rparr>) (a # remove1 a as)"
    by (rule pool_list_payload_upd [OF s1(2) e1(1)]) simp_all
  with s1 e1 show ?thesis by blast
qed

theorem RefDataset_shared_twice_witness:
  "case state_two_released of
     None \<Rightarrow> False
   | Some s \<Rightarrow>
       pool_list s [2, 1] \<and>
       (case RefDataset (plain_env test_opener (pool_size_config ''2'') False) ''A'' GA_ReadOnly
               None True s of
          None \<Rightarrow> False
        | Some (r1, s1) \<Rightarrow>
            r1 = Some 1 \<and> pool_list s1 [1, 2] \<and> map_option refCount (heap s1 1) = Some 1 \<and>
            (case RefDataset (plain_env test_opener (pool_size_config ''2'') False) ''A''
                    GA_ReadOnly None True s1 of
               None \<Rightarrow> False
             | Some (r2, s2) \<Rightarrow>
                 r2 = Some 1 \<and> pool_list s2 [1, 2] \<and>
                 map_option refCount (heap s2 1) = Some 2))"
proof -
  have "case state_two_released of
          None \<Rightarrow> False
        | Some s \<Rightarrow>
            pool_list s [2, 1] \<and> slot_of_ref s [2, 1] ''A'' True = Some 1 \<and>
            hit_refCount s ''A'' True = 0"
    by code_simp
  then obtain s where s: "state_two_released = Some s" "pool_list s [2, 1]"
    "slot_of_ref s [2, 1] ''A'' True = Some 1" "hit_refCount s ''A'' True = 0"
    unfolding case_option_False_conv by blast
  from RefDataset_shared_twice [OF s(2,3,4), of test_opener "pool_size_config ''2''" False
      GA_ReadOnly None]
  obtain s1 s2 e1 where r:
    "RefDataset (plain_env test_opener (pool_size_config ''2'') False) ''A'' GA_ReadOnly None True s =
       Some (Some 1, s1)"
    "heap s1 1 = Some e1" "refCount e1 = 1" "pool_list s1 (1 # remove1 1 [2, 1])"
    "RefDataset (plain_env test_opener (pool_size_config ''2'') False) ''A'' GA_ReadOnly None True s1 =
       Some (Some 1, s2)"
    "s2 = s1\<lparr>heap := (heap s1)(1 \<mapsto> e1\<lparr>refCount := 2\<rparr>)\<rparr>"
    "pool_list s2 (1 # remove1 1 [2, 1])"
    by blast
  from r(4,7) have pls: "pool_list s1 [1, 2]" "pool_list s2 [1, 2]" by simp_all
  from r(6) have "map_option refCount (heap s2 1) = Some 2" by simp
  with s(2) pls r(2,3) show ?thesis by (simp add: s(1) r(1) r(5))
qed

end
